theory Spec2Isabelle
  imports Complex_Main "HOL-Library.Sublist"
begin

section \<open>Data model of \<open>ingest.py\<close>\<close>

text \<open>
  A Python \<open>str\<close> is a sequence of Unicode code points; \<open>len\<close> counts code points.
  Code points are natural numbers here, so that characters beyond one byte (the bullet
  U+2022, the euro sign U+20AC) are single elements, as they are in Python.
\<close>

type_synonym pystr = "nat list"

definition ascii :: "string \<Rightarrow> pystr" where
  "ascii s = map of_char s"

text \<open>
  \<open>str.isspace\<close>, \<open>str.strip\<close>, \<open>str.split\<close> and the pattern \<open>\s\<close> of \<open>re\<close> on a
  \<open>str\<close> all use the same table of Unicode white space.
\<close>

definition py_isspace :: "nat \<Rightarrow> bool" where
  "py_isspace c \<longleftrightarrow>
     (9 \<le> c \<and> c \<le> 13) \<or> (28 \<le> c \<and> c \<le> 32) \<or> c = 133 \<or> c = 160 \<or> c = 5760 \<or>
     (8192 \<le> c \<and> c \<le> 8202) \<or> c = 8232 \<or> c = 8233 \<or> c = 8239 \<or> c = 8287 \<or> c = 12288"

text \<open>
  A \<open>pymupdf.Rect\<close>, and the 4-tuple \<open>tuple(rect)\<close> stored in a block: index 1 is
  \<open>y0\<close> (the top edge), index 3 is \<open>y1\<close> (the bottom edge). Python floats are modelled
  as real numbers.
\<close>

record rect =
  x0 :: real
  y0 :: real
  x1 :: real
  y1 :: real

text \<open>
  The block dictionaries built at the end of \<open>extract_logical_text_blocks\<close>. The font
  size is \<open>round(span["size"])\<close>, a Python \<open>int\<close>; the colour is the integer of the span.
\<close>

record block =
  page_number :: int
  btext :: pystr
  bbox :: rect
  font_size :: int
  font_name :: pystr
  is_bold :: bool
  color :: int

section \<open>\<open>str.split()\<close>\<close>

text \<open>
  \<open>s.split()\<close> without argument: the maximal runs of characters that are not white
  space, in order. \<open>cur\<close> is the run read so far.
\<close>

fun split_from :: "pystr \<Rightarrow> pystr \<Rightarrow> pystr list" where
  "split_from cur [] = (if cur = [] then [] else [cur])"
| "split_from cur (c # cs) =
     (if py_isspace c then (if cur = [] then split_from [] cs else cur # split_from [] cs)
      else split_from (cur @ [c]) cs)"

definition py_split :: "pystr \<Rightarrow> pystr list" where
  "py_split s = split_from [] s"

section \<open>Document statistics\<close>

definition calculate_weighted_mean_font_size :: "block list \<Rightarrow> real" where
  "calculate_weighted_mean_font_size blocks =
     (if blocks = [] then 0
      else let total_char_length = (\<Sum>b\<leftarrow>blocks. int (length (btext b)))
           in if total_char_length = 0 then 0
              else real_of_int (\<Sum>b\<leftarrow>blocks. font_size b * int (length (btext b)))
                     / real_of_int total_char_length)"

section \<open>Double-precision arithmetic\<close>

text \<open>
  A Python \<open>float\<close> is an IEEE double. An arithmetic operation on floats returns the exact
  result rounded to a double; a comparison is exact. The rounding belongs to the runtime: it
  is the parameter \<open>rnd\<close> of the functions that multiply or subtract floats and then
  compare. The literals \<open>792\<close>, \<open>1.5\<close> and \<open>0.5\<close> are doubles; \<open>0.12\<close> is not, and
  the default margin is the double nearest to it.
\<close>

definition default_margin :: "(real \<Rightarrow> real) \<Rightarrow> real" where
  "default_margin rnd = rnd 0.12"

section \<open>Filters\<close>

definition is_long :: "int \<Rightarrow> block \<Rightarrow> bool" where
  "is_long max_words b \<longleftrightarrow> int (length (py_split (btext b))) > max_words"

definition is_large_font :: "(real \<Rightarrow> real) \<Rightarrow> real \<Rightarrow> block \<Rightarrow> bool" where
  "is_large_font rnd weighted_avg_font_size b \<longleftrightarrow>
     real_of_int (font_size b) > rnd (weighted_avg_font_size * 1.5)"

definition filter_long_blocks ::
  "(real \<Rightarrow> real) \<Rightarrow> block list \<Rightarrow> real \<Rightarrow> int \<Rightarrow> block list" where
  "filter_long_blocks rnd blocks weighted_avg_font_size max_words =
     (if blocks = [] then []
      else filter (\<lambda>b. \<not> is_long max_words b \<or> is_large_font rnd weighted_avg_font_size b)
             blocks)"

subsection \<open>\<open>collections.Counter\<close>\<close>

text \<open>
  A \<open>Counter\<close> is a dictionary, and a dictionary keeps its keys in the order of their
  first insertion: an association list. \<open>Counter(xs)\<close> counts the elements of \<open>xs\<close>
  from left to right.
\<close>

fun counter_add :: "'a \<Rightarrow> ('a \<times> nat) list \<Rightarrow> ('a \<times> nat) list" where
  "counter_add x [] = [(x, 1)]"
| "counter_add x ((k, n) # kvs) =
     (if k = x then (k, n + 1) # kvs else (k, n) # counter_add x kvs)"

definition counter :: "'a list \<Rightarrow> ('a \<times> nat) list" where
  "counter xs = fold counter_add xs []"

text \<open>
  \<open>most_common(1)\<close> is \<open>heapq.nlargest(1, items, key=count)\<close>, which for \<open>n = 1\<close> is
  \<open>max(items, key=count)\<close>: the first item, in the order of the dictionary, whose count is
  not exceeded. \<open>max_first cur rest\<close> is that loop with \<open>cur\<close> the best item so far.
\<close>

fun max_first :: "('a \<times> nat) \<Rightarrow> ('a \<times> nat) list \<Rightarrow> ('a \<times> nat)" where
  "max_first cur [] = cur"
| "max_first cur (kv # kvs) = (if snd kv > snd cur then max_first kv kvs else max_first cur kvs)"

text \<open>
  \<open>Counter(xs).most_common(1)[0][0]\<close>; \<open>None\<close> is the \<open>IndexError\<close> of \<open>[0]\<close> on the
  empty list that \<open>most_common\<close> returns for an empty counter.
\<close>

definition most_common1 :: "'a list \<Rightarrow> 'a option" where
  "most_common1 xs = (case counter xs of [] \<Rightarrow> None | kv # kvs \<Rightarrow> Some (fst (max_first kv kvs)))"

text \<open>
  The tie-break in the words of the specification, "the first color reaching the highest
  count": the elements are counted from left to right, and the result is the first element
  whose running count reaches the highest count of the whole list. \<open>seen\<close> is the part of
  the list already counted.
\<close>

definition highest_count :: "'a list \<Rightarrow> nat" where
  "highest_count xs = fold max (map (count_list xs) xs) 0"

fun first_reaching :: "nat \<Rightarrow> 'a list \<Rightarrow> 'a list \<Rightarrow> 'a option" where
  "first_reaching h seen [] = None"
| "first_reaching h seen (x # xs) =
     (if count_list (seen @ [x]) x = h then Some x else first_reaching h (seen @ [x]) xs)"

definition first_reaching_highest_count :: "'a list \<Rightarrow> 'a option" where
  "first_reaching_highest_count xs = first_reaching (highest_count xs) [] xs"

subsection \<open>Small-font filter\<close>

definition majority_color :: "block list \<Rightarrow> int option" where
  "majority_color blocks =
     (let colors = map color blocks
      in if colors \<noteq> [] then most_common1 colors else Some 0)"

definition keeps_small_font :: "real \<Rightarrow> int \<Rightarrow> block \<Rightarrow> bool" where
  "keeps_small_font weighted_avg_font_size mc b \<longleftrightarrow>
     real_of_int (font_size b) > weighted_avg_font_size \<or> is_bold b \<or> color b \<noteq> mc"

definition filter_small_fonts_by_weighted_mean :: "block list \<Rightarrow> real \<Rightarrow> block list option" where
  "filter_small_fonts_by_weighted_mean blocks weighted_avg_font_size =
     (if blocks = [] then Some []
      else case majority_color blocks of
             None \<Rightarrow> None
           | Some mc \<Rightarrow> Some (filter (keeps_small_font weighted_avg_font_size mc) blocks))"

subsection \<open>Header and footer filter\<close>

text \<open>
  \<open>int(x)\<close> of a float truncates towards zero. The product \<open>page_count * 0.5\<close> is exact
  in double arithmetic (a page count is far below \<open>2 ^ 53\<close>, and halving a double is exact).
\<close>

definition py_int :: "real \<Rightarrow> int" where
  "py_int x = (if x \<ge> 0 then \<lfloor>x\<rfloor> else \<lceil>x\<rceil>)"

text \<open>\<open>text_page_map[text]\<close>: the set of page numbers of the blocks with that text.\<close>

definition text_page_map :: "block list \<Rightarrow> pystr \<Rightarrow> int set" where
  "text_page_map blocks t = set (map page_number (filter (\<lambda>b. btext b = t) blocks))"

definition min_pages :: "int \<Rightarrow> real \<Rightarrow> int" where
  "min_pages page_count min_occurrence_ratio =
     (let m = py_int (real_of_int page_count * min_occurrence_ratio)
      in if m < 2 then 2 else m)"

definition find_repeating_texts :: "block list \<Rightarrow> int \<Rightarrow> real \<Rightarrow> pystr set" where
  "find_repeating_texts blocks page_count min_occurrence_ratio =
     (if blocks = [] \<or> page_count = 0 then {}
      else {t \<in> set (map btext blocks).
              int (card (text_page_map blocks t)) \<ge> min_pages page_count min_occurrence_ratio})"

definition is_header_footer ::
  "(real \<Rightarrow> real) \<Rightarrow> pystr set \<Rightarrow> real \<Rightarrow> real \<Rightarrow> block \<Rightarrow> bool" where
  "is_header_footer rnd repeating_texts header_margin footer_margin b \<longleftrightarrow>
     (let page_height = 792;
          header_threshold = rnd (page_height * header_margin);
          footer_threshold = rnd (page_height * rnd (1 - footer_margin));
          is_repeating = (btext b \<in> repeating_texts);
          is_in_header = (y0 (bbox b) < header_threshold);
          is_in_footer = (y1 (bbox b) > footer_threshold)
      in is_repeating \<and> (is_in_header \<or> is_in_footer))"

definition filter_header_footer_blocks ::
  "(real \<Rightarrow> real) \<Rightarrow> block list \<Rightarrow> int \<Rightarrow> real \<Rightarrow> real \<Rightarrow> block list" where
  "filter_header_footer_blocks rnd blocks page_count header_margin footer_margin =
     (if blocks = [] then []
      else let repeating_texts = find_repeating_texts blocks page_count 0.5
           in if repeating_texts = {} then blocks
              else filter
                     (\<lambda>b. \<not> is_header_footer rnd repeating_texts header_margin footer_margin b)
                     blocks)"

section \<open>Text cleanup\<close>

text \<open>\<open>s.strip()\<close>: the white space at both ends is removed.\<close>

definition py_strip :: "pystr \<Rightarrow> pystr" where
  "py_strip s = rev (dropWhile py_isspace (rev (dropWhile py_isspace s)))"

text \<open>\<open>re.sub(r'\s+', ' ', s)\<close>: every maximal run of white space becomes one space (U+0020).\<close>

function sub_ws :: "pystr \<Rightarrow> pystr" where
  "sub_ws [] = []"
| "sub_ws (c # cs) =
     (if py_isspace c then 32 # sub_ws (dropWhile py_isspace cs) else c # sub_ws cs)"
  by pat_completeness auto
termination
  by (relation "measure length") (auto simp: length_dropWhile_le less_Suc_eq_le)

text \<open>
  \<open>\w\<close> on a \<open>str\<close> is \<open>ch.isalnum() or ch == '_'\<close>. The table of alphanumeric code
  points belongs to the Python runtime; it is the parameter \<open>isalnum\<close>.
\<close>

definition is_word :: "(nat \<Rightarrow> bool) \<Rightarrow> nat \<Rightarrow> bool" where
  "is_word isalnum c \<longleftrightarrow> isalnum c \<or> c = 95"

text \<open>
  \<open>re.sub(r'^\W+|\W+$', '', s)\<close> on a string without line feed (after \<open>sub_ws\<close> there is
  none, so \<open>$\<close> is the end of the string): the run of non-word characters at the start and
  the one at the end are deleted.
\<close>

definition strip_nonword :: "(nat \<Rightarrow> bool) \<Rightarrow> pystr \<Rightarrow> pystr" where
  "strip_nonword isalnum s =
     rev (dropWhile (\<lambda>c. \<not> is_word isalnum c) (rev (dropWhile (\<lambda>c. \<not> is_word isalnum c) s)))"

text \<open>\<open>re.search('[a-zA-Z]', s)\<close>.\<close>

definition has_ascii_letter :: "pystr \<Rightarrow> bool" where
  "has_ascii_letter s \<longleftrightarrow> (\<exists>c \<in> set s. (65 \<le> c \<and> c \<le> 90) \<or> (97 \<le> c \<and> c \<le> 122))"

definition clean_text :: "(nat \<Rightarrow> bool) \<Rightarrow> pystr \<Rightarrow> pystr" where
  "clean_text isalnum s = strip_nonword isalnum (sub_ws (py_strip s))"

fun post_process_blocks :: "(nat \<Rightarrow> bool) \<Rightarrow> block list \<Rightarrow> block list" where
  "post_process_blocks isalnum [] = []"
| "post_process_blocks isalnum (b # blocks) =
     (let text = clean_text isalnum (btext b)
      in if text \<noteq> [] \<and> has_ascii_letter text
         then b\<lparr>btext := text\<rparr> # post_process_blocks isalnum blocks
         else post_process_blocks isalnum blocks)"

section \<open>Block merger\<close>

text \<open>
  The dominant style of a line: \<open>(round(size), font, is_bold, color)\<close>. A line and the
  block under construction are dictionaries with the same three keys.
\<close>

type_synonym style = "int \<times> pystr \<times> bool \<times> int"

record line =
  ltext :: pystr
  lbbox :: rect
  lstyle :: style

text \<open>
  \<open>re.match(r'^\s*([...]|(\d+\.))\s+', s)\<close>. As the file is read (UTF-8), the character
  class holds U+00E2, U+20AC, U+00A2 and the hyphen-minus U+002D. \<open>\d\<close> on a \<open>str\<close> is
  \<open>ch.isdecimal()\<close>, a table of the Python runtime: the parameter \<open>isdecimal\<close>. The three
  functions follow the backtracking matcher: \<open>\d+\.\s+\<close> after one digit, the group
  followed by \<open>\s+\<close>, and \<open>\s*\<close> before the group.
\<close>

fun digits_dot_space :: "(nat \<Rightarrow> bool) \<Rightarrow> pystr \<Rightarrow> bool" where
  "digits_dot_space isdecimal [] = False"
| "digits_dot_space isdecimal (c # cs) =
     ((c = 46 \<and> (case cs of [] \<Rightarrow> False | d # _ \<Rightarrow> py_isspace d)) \<or>
      (isdecimal c \<and> digits_dot_space isdecimal cs))"

definition marker_space :: "(nat \<Rightarrow> bool) \<Rightarrow> pystr \<Rightarrow> bool" where
  "marker_space isdecimal s =
     (case s of
        [] \<Rightarrow> False
      | c # cs \<Rightarrow>
          (c \<in> {226, 8364, 162, 45} \<and> (case cs of [] \<Rightarrow> False | d # _ \<Rightarrow> py_isspace d)) \<or>
          (isdecimal c \<and> digits_dot_space isdecimal cs))"

fun is_list_item :: "(nat \<Rightarrow> bool) \<Rightarrow> pystr \<Rightarrow> bool" where
  "is_list_item isdecimal [] = False"
| "is_list_item isdecimal (c # cs) =
     (marker_space isdecimal (c # cs) \<or> (py_isspace c \<and> is_list_item isdecimal cs))"

text \<open>
  The parameters of the merger that are not in \<open>ingest.py\<close>: the table \<open>isdecimal\<close>,
  \<open>Rect.include_rect\<close> of PyMuPDF and the rounding of double arithmetic; and the argument
  \<open>line_proximity_threshold\<close>.
\<close>

record merger =
  isdecimal :: "nat \<Rightarrow> bool"
  include_rect :: "rect \<Rightarrow> rect \<Rightarrow> rect"
  round_op :: "real \<Rightarrow> real"
  line_proximity_threshold :: real

definition merges :: "merger \<Rightarrow> line \<Rightarrow> line \<Rightarrow> bool" where
  "merges M prev_line current_line \<longleftrightarrow>
     (let same_style = (lstyle current_line = lstyle prev_line);
          vertically_close =
            (round_op M (y0 (lbbox current_line) - y1 (lbbox prev_line))
               < line_proximity_threshold M);
          list_item = is_list_item (isdecimal M) (ltext current_line)
      in same_style \<and> vertically_close \<and> \<not> list_item)"

text \<open>
  The loop \<open>for i in range(1, len(lines))\<close>: \<open>prev_line\<close> is \<open>lines[i-1]\<close>,
  \<open>current_block\<close> the open block, \<open>merged_blocks\<close> the output so far; after the loop
  the open block is appended.
\<close>

fun merge_loop :: "merger \<Rightarrow> line \<Rightarrow> line \<Rightarrow> line list \<Rightarrow> line list \<Rightarrow> line list" where
  "merge_loop M prev_line current_block [] merged_blocks = merged_blocks @ [current_block]"
| "merge_loop M prev_line current_block (current_line # rest) merged_blocks =
     (if merges M prev_line current_line
      then merge_loop M current_line
             (current_block\<lparr>ltext := ltext current_block @ [32] @ ltext current_line,
                             lbbox := include_rect M (lbbox current_block) (lbbox current_line)\<rparr>)
             rest merged_blocks
      else merge_loop M current_line
             \<lparr>ltext = ltext current_line, lbbox = lbbox current_line, lstyle = lstyle current_line\<rparr>
             rest (merged_blocks @ [current_block]))"

definition merge_lines :: "merger \<Rightarrow> line list \<Rightarrow> line list" where
  "merge_lines M lines =
     (case lines of
        [] \<Rightarrow> []
      | first # rest \<Rightarrow>
          merge_loop M first \<lparr>ltext = ltext first, lbbox = lbbox first, lstyle = lstyle first\<rparr>
            rest [])"

text \<open>The block dictionaries of one page; \<open>page_num\<close> is the index of \<open>enumerate(doc)\<close>.\<close>

definition page_blocks :: "int \<Rightarrow> line list \<Rightarrow> block list" where
  "page_blocks page_num merged_blocks =
     map (\<lambda>m. \<lparr>page_number = page_num + 1, btext = ltext m, bbox = lbbox m,
                font_size = fst (lstyle m), font_name = fst (snd (lstyle m)),
                is_bold = fst (snd (snd (lstyle m))), color = snd (snd (snd (lstyle m)))\<rparr>)
       merged_blocks"

section \<open>Feature engineer\<close>

text \<open>A block with the five keys that \<open>engineer_layout_features\<close> adds.\<close>

record fblock = block +
  relative_font_size :: real
  is_bold_numeric :: int
  char_count :: nat
  word_count :: nat
  vertical_position :: real

definition add_features :: "int \<Rightarrow> block \<Rightarrow> fblock" where
  "add_features modal_font_size b =
     (let page_height = (792 :: real)
      in block.extend b
           \<lparr>relative_font_size =
              (if modal_font_size > 0
               then real_of_int (font_size b) / real_of_int modal_font_size else 0),
            is_bold_numeric = (if is_bold b then 1 else 0),
            char_count = length (btext b),
            word_count = length (py_split (btext b)),
            vertical_position = (if page_height > 0 then y0 (bbox b) / page_height else 0)\<rparr>)"

text \<open>\<open>None\<close> is the \<open>IndexError\<close> of \<open>most_common(1)[0]\<close>.\<close>

definition engineer_layout_features :: "block list \<Rightarrow> fblock list option" where
  "engineer_layout_features blocks =
     (if blocks = [] then Some []
      else let font_sizes = map font_size (filter (\<lambda>b. font_size b > 0) blocks)
           in if font_sizes = [] then Some []
              else case most_common1 font_sizes of
                     None \<Rightarrow> None
                   | Some modal_font_size \<Rightarrow> Some (map (add_features modal_font_size) blocks))"

section \<open>Rounding to a double\<close>

text \<open>
  The rounding of IEEE double arithmetic, for the examples: to the nearest number with a
  significand of 53 bits, a tie to the one with an even significand. The exponent is not
  bounded (no overflow, no subnormal numbers). \<open>binary_exponent a\<close> is the \<open>e\<close> with
  \<open>2 ^ e \<le> a < 2 ^ (e + 1)\<close> for a positive \<open>a\<close>.
\<close>

fun bit_length :: "nat \<Rightarrow> nat" where
  "bit_length n = (if n = 0 then 0 else Suc (bit_length (n div 2)))"

declare bit_length.simps [simp del]

definition binary_exponent :: "real \<Rightarrow> int" where
  "binary_exponent a =
     (if a \<ge> 1 then int (bit_length (nat \<lfloor>a\<rfloor>)) - 1
      else - int (bit_length (nat (\<lceil>1 / a\<rceil> - 1))))"

definition round_half_even :: "real \<Rightarrow> int" where
  "round_half_even y =
     (let f = \<lfloor>y\<rfloor>
      in if y - of_int f < 1 / 2 then f
         else if y - of_int f > 1 / 2 then f + 1
         else if even f then f else f + 1)"

definition scale2 :: "real \<Rightarrow> int \<Rightarrow> real" where
  "scale2 x k = (if k \<ge> 0 then x * 2 ^ nat k else x / 2 ^ nat (- k))"

definition round_double :: "real \<Rightarrow> real" where
  "round_double x =
     (if x = 0 then 0
      else let e = binary_exponent \<bar>x\<bar>;
               m = round_half_even (scale2 \<bar>x\<bar> (52 - e))
           in sgn x * scale2 (of_int m) (e - 52))"

section \<open>Example inputs\<close>

text \<open>A text of 25 words, and a block with that text and a chosen font size.\<close>

definition words25 :: pystr where
  "words25 = ascii ''a b c d e f g h i j k l m n o p q r s t u v w x y''"

definition sized_block :: "int \<Rightarrow> block" where
  "sized_block sz =
     \<lparr>page_number = 1, btext = words25, bbox = \<lparr>x0 = 50, y0 = 72, x1 = 500, y1 = 90\<rparr>,
      font_size = sz, font_name = ascii ''helv'', is_bold = False, color = 0\<rparr>"

text \<open>A block whose text is empty.\<close>

definition empty_text_block :: block where
  "empty_text_block =
     \<lparr>page_number = 1, btext = [], bbox = \<lparr>x0 = 50, y0 = 72, x1 = 500, y1 = 90\<rparr>,
      font_size = 12, font_name = ascii ''helv'', is_bold = False, color = 0\<rparr>"

text \<open>A short block with a chosen page, font size, boldness and colour.\<close>

definition colored_block :: "int \<Rightarrow> int \<Rightarrow> bool \<Rightarrow> int \<Rightarrow> block" where
  "colored_block pg sz bold col =
     \<lparr>page_number = pg, btext = ascii ''Heading'', bbox = \<lparr>x0 = 50, y0 = 72, x1 = 500, y1 = 90\<rparr>,
      font_size = sz, font_name = ascii ''helv'', is_bold = bold, color = col\<rparr>"

text \<open>Four blocks of colours 1, 2, 2, 1: both colours occur twice, 1 is seen first.\<close>

definition tie_blocks :: "block list" where
  "tie_blocks = [colored_block 1 11 False 1, colored_block 1 11 False 2,
                 colored_block 1 11 True 2, colored_block 1 14 False 1]"

text \<open>A running header in the top band of a page, and a title that occurs once.\<close>

definition header_block :: "int \<Rightarrow> block" where
  "header_block pg =
     \<lparr>page_number = pg, btext = ascii ''Annual Report'', bbox = \<lparr>x0 = 50, y0 = 10, x1 = 500, y1 = 20\<rparr>,
      font_size = 9, font_name = ascii ''helv'', is_bold = False, color = 0\<rparr>"

definition title_block :: block where
  "title_block =
     \<lparr>page_number = 1, btext = ascii ''Introduction'', bbox = \<lparr>x0 = 50, y0 = 30, x1 = 500, y1 = 50\<rparr>,
      font_size = 18, font_name = ascii ''helv'', is_bold = True, color = 0\<rparr>"

text \<open>
  A repeating block whose top edge is the double \<open>792 * 0.12 = 95.03999999999999\<close>, the
  header threshold itself.
\<close>

definition edge_block :: "int \<Rightarrow> block" where
  "edge_block pg =
     \<lparr>page_number = pg, btext = ascii ''Chapter'',
      bbox = \<lparr>x0 = 50, y0 = 3343922723322593 / 35184372088832, x1 = 500, y1 = 110\<rparr>,
      font_size = 9, font_name = ascii ''helv'', is_bold = False, color = 0\<rparr>"

text \<open>Five blocks with the font sizes 18, 18, 11, 11, 11.\<close>

definition modal_example :: "block list" where
  "modal_example = [colored_block 1 18 True 0, colored_block 1 18 True 0, colored_block 1 11 False 0,
                    colored_block 2 11 False 0, colored_block 2 11 False 0]"

subsection \<open>Single-spaced texts\<close>

text \<open>
  Texts in which every white-space character is the space U+0020 and is not followed by
  another white-space character.
\<close>

fun single_spaced :: "pystr \<Rightarrow> bool" where
  "single_spaced [] = True"
| "single_spaced [c] = (py_isspace c \<longrightarrow> c = 32)"
| "single_spaced (c # d # cs) =
     ((py_isspace c \<longrightarrow> c = 32 \<and> \<not> py_isspace d) \<and> single_spaced (d # cs))"

subsection \<open>Inputs for the text cleanup and the block merger\<close>

text \<open>
  The alphanumeric code points below 256 (\<open>str.isalnum\<close>), a table for the examples.
\<close>

definition latin1_isalnum :: "nat \<Rightarrow> bool" where
  "latin1_isalnum c \<longleftrightarrow>
     (48 \<le> c \<and> c \<le> 57) \<or> (65 \<le> c \<and> c \<le> 90) \<or> (97 \<le> c \<and> c \<le> 122) \<or>
     c = 170 \<or> c = 178 \<or> c = 179 \<or> c = 181 \<or> c = 185 \<or> c = 186 \<or>
     (188 \<le> c \<and> c \<le> 190) \<or> (192 \<le> c \<and> c \<le> 214) \<or> (216 \<le> c \<and> c \<le> 246) \<or>
     (248 \<le> c \<and> c \<le> 255)"

text \<open>Blocks with a chosen text, before cleanup.\<close>

definition text_block :: "string \<Rightarrow> block" where
  "text_block s =
     \<lparr>page_number = 1, btext = ascii s, bbox = \<lparr>x0 = 50, y0 = 72, x1 = 500, y1 = 90\<rparr>,
      font_size = 14, font_name = ascii ''helv'', is_bold = True, color = 0\<rparr>"

definition raw_blocks :: "block list" where
  "raw_blocks = [text_block ''  -- 1.  Scope   and  Purpose :: '', text_block ''  42 - 17 '',
                 text_block ''***'', text_block ''Summary'']"

text \<open>The decimal digits below 256 (\<open>str.isdecimal\<close>), a table for the examples.\<close>

definition latin1_isdecimal :: "nat \<Rightarrow> bool" where
  "latin1_isdecimal c \<longleftrightarrow> 48 \<le> c \<and> c \<le> 57"

text \<open>
  \<open>Rect.include_rect\<close> on two non-empty finite rectangles is their union.
\<close>

definition union_rect :: "rect \<Rightarrow> rect \<Rightarrow> rect" where
  "union_rect a b =
     \<lparr>x0 = min (x0 a) (x0 b), y0 = min (y0 a) (y0 b),
      x1 = max (x1 a) (x1 b), y1 = max (y1 a) (y1 b)\<rparr>"

text \<open>The merger with the default threshold 4.0.\<close>

definition default_merger :: merger where
  "default_merger =
     \<lparr>isdecimal = latin1_isdecimal, include_rect = union_rect, round_op = round_double,
      line_proximity_threshold = 4.0\<rparr>"

text \<open>
  A line, and three lines that follow it with the same style and a vertical gap of 0: one
  that starts with the bullet U+2022, one that starts with a hyphen, one with plain text.
\<close>

definition body_style :: style where
  "body_style = (11, ascii ''helv'', False, 0)"

definition heading_line :: line where
  "heading_line =
     \<lparr>ltext = ascii ''Scope'', lbbox = \<lparr>x0 = 50, y0 = 100, x1 = 300, y1 = 112\<rparr>,
      lstyle = body_style\<rparr>"

definition bullet_line :: line where
  "bullet_line =
     \<lparr>ltext = 8226 # ascii '' first item'', lbbox = \<lparr>x0 = 50, y0 = 112, x1 = 320, y1 = 124\<rparr>,
      lstyle = body_style\<rparr>"

definition dash_line :: line where
  "dash_line =
     \<lparr>ltext = ascii ''- first item'', lbbox = \<lparr>x0 = 50, y0 = 112, x1 = 320, y1 = 124\<rparr>,
      lstyle = body_style\<rparr>"

definition plain_line :: line where
  "plain_line =
     \<lparr>ltext = ascii ''and purpose'', lbbox = \<lparr>x0 = 50, y0 = 112, x1 = 320, y1 = 124\<rparr>,
      lstyle = body_style\<rparr>"

section \<open>Properties of the counter\<close>

lemma counter_snoc: "counter (xs @ [x]) = counter_add x (counter xs)"
  by (simp add: counter_def)

lemma counter_add_not_Nil: "counter_add x kvs \<noteq> []"
  by (induction x kvs rule: counter_add.induct) auto

lemma counter_not_Nil: "xs \<noteq> [] \<Longrightarrow> counter xs \<noteq> []"
  by (cases xs rule: rev_cases) (simp_all add: counter_snoc counter_add_not_Nil)

lemma most_common1_total: "xs \<noteq> [] \<Longrightarrow> \<exists>c. most_common1 xs = Some c"
  using counter_not_Nil [of xs] by (auto simp: most_common1_def split: list.splits)

lemma keys_counter_add:
  "map fst (counter_add x kvs) =
     (if x \<in> fst ` set kvs then map fst kvs else map fst kvs @ [x])"
  by (induction x kvs rule: counter_add.induct) auto

lemma keys_fold_counter_add:
  "\<exists>ks. map fst (fold counter_add ys acc) = map fst acc @ ks"
proof (induction ys arbitrary: acc)
  case Nil
  then show ?case by simp
next
  case (Cons y ys)
  obtain ks where "map fst (fold counter_add ys (counter_add y acc)) = map fst (counter_add y acc) @ ks"
    using Cons.IH by blast
  then show ?case by (auto simp: keys_counter_add)
qed

lemma set_keys_counter: "set (map fst (counter xs)) = set xs"
  by (induction xs rule: rev_induct) (auto simp: counter_snoc keys_counter_add counter_def)

lemma distinct_keys_counter: "distinct (map fst (counter xs))"
proof (induction xs rule: rev_induct)
  case Nil
  then show ?case by (simp add: counter_def)
next
  case (snoc x xs)
  then show ?case by (auto simp: counter_snoc keys_counter_add)
qed

lemma counter_add_value:
  "(k, n) \<in> set (counter_add x kvs) \<Longrightarrow> distinct (map fst kvs) \<Longrightarrow>
     (k = x \<and> ((\<exists>m. (k, m) \<in> set kvs \<and> n = m + 1) \<or> k \<notin> fst ` set kvs \<and> n = 1)) \<or> (k \<noteq> x \<and> (k, n) \<in> set kvs)"
  by (induction x kvs rule: counter_add.induct) (auto simp: image_iff split: if_splits)

lemma counter_value: "(k, n) \<in> set (counter xs) \<Longrightarrow> n = count_list xs k"
proof (induction xs arbitrary: n rule: rev_induct)
  case Nil
  then show ?case by (simp add: counter_def)
next
  case (snoc x xs)
  from snoc.prems have mem: "(k, n) \<in> set (counter_add x (counter xs))"
    by (simp add: counter_snoc)
  from counter_add_value [OF mem distinct_keys_counter]
  show ?case
  proof (elim disjE conjE exE)
    fix m assume "k = x" "(k, m) \<in> set (counter xs)" "n = m + 1"
    then show ?thesis using snoc.IH [of m] by simp
  next
    assume "k = x" "k \<notin> fst ` set (counter xs)" "n = 1"
    then have "k \<notin> set xs" using set_keys_counter [of xs] by simp
    then show ?thesis using \<open>k = x\<close> \<open>n = 1\<close> by (simp add: count_list_0_iff)
  next
    assume "k \<noteq> x" "(k, n) \<in> set (counter xs)"
    then show ?thesis using snoc.IH [of n] by simp
  qed
qed

lemma max_first_split:
  "\<exists>pre post. cur # rest = pre @ max_first cur rest # post \<and>
      (\<forall>p \<in> set pre. snd p < snd (max_first cur rest)) \<and>
      (\<forall>p \<in> set post. snd p \<le> snd (max_first cur rest))"
proof (induction cur rest rule: max_first.induct)
  case (1 cur)
  have "[cur] = [] @ max_first cur [] # []" by simp
  then show ?case by fastforce
next
  case (2 cur kv kvs)
  show ?case
  proof (cases "snd kv > snd cur")
    case True
    define r where "r = max_first kv kvs"
    have r: "max_first cur (kv # kvs) = r" using True by (simp add: r_def)
    obtain pre post where *: "kv # kvs = pre @ r # post"
      "\<forall>p \<in> set pre. snd p < snd r" "\<forall>p \<in> set post. snd p \<le> snd r"
      using 2(1) [OF True] unfolding r_def by blast
    have "kv \<in> set (pre @ r # post)" using *(1) by (metis list.set_intros(1))
    then have "snd kv \<le> snd r" using *(2,3) by (auto intro: less_imp_le)
    then have "snd cur < snd r" using True by simp
    then have "cur # kv # kvs = (cur # pre) @ r # post \<and>
      (\<forall>p \<in> set (cur # pre). snd p < snd r) \<and> (\<forall>p \<in> set post. snd p \<le> snd r)"
      using * by simp
    then show ?thesis unfolding r by blast
  next
    case False
    define r where "r = max_first cur kvs"
    have r: "max_first cur (kv # kvs) = r" using False by (simp add: r_def)
    obtain pre post where *: "cur # kvs = pre @ r # post"
      "\<forall>p \<in> set pre. snd p < snd r" "\<forall>p \<in> set post. snd p \<le> snd r"
      using 2(2) [OF False] unfolding r_def by blast
    show ?thesis
    proof (cases pre)
      case Nil
      then have "r = cur" "kvs = post" using *(1) by simp_all
      then have "cur # kv # kvs = [] @ r # (kv # post) \<and>
        (\<forall>p \<in> set []. snd p < snd r) \<and> (\<forall>p \<in> set (kv # post). snd p \<le> snd r)"
        using * False by simp
      then show ?thesis unfolding r by blast
    next
      case (Cons a pre')
      then have a: "a = cur" "kvs = pre' @ r # post" using *(1) by simp_all
      then have "snd cur < snd r" using *(2) Cons by simp
      then have "snd kv < snd r" using False by simp
      then have "cur # kv # kvs = (cur # kv # pre') @ r # post \<and>
        (\<forall>p \<in> set (cur # kv # pre'). snd p < snd r) \<and> (\<forall>p \<in> set post. snd p \<le> snd r)"
        using * a Cons by simp
      then show ?thesis unfolding r by blast
    qed
  qed
qed

lemma split_at_first: "c \<in> set xs \<Longrightarrow> \<exists>rest. xs = takeWhile (\<lambda>y. y \<noteq> c) xs @ c # rest"
  by (induction xs) auto

lemma prefix_before_unique:
  "a @ c # b = a' @ c # b' \<Longrightarrow> c \<notin> set a \<Longrightarrow> c \<notin> set a' \<Longrightarrow> a = a'"
proof (induction a arbitrary: a')
  case Nil
  then show ?case by (cases a') auto
next
  case (Cons x a)
  then show ?case by (cases a') auto
qed

lemma key_in_counter: "counter xs = pre @ (c, n) # post \<Longrightarrow> c \<in> set xs"
proof -
  assume "counter xs = pre @ (c, n) # post"
  then have "c \<in> set (map fst (counter xs))" by simp
  then show ?thesis by (simp only: set_keys_counter)
qed

lemma keys_before_first:
  assumes "counter xs = pre @ (c, n) # post"
  shows "set (takeWhile (\<lambda>y. y \<noteq> c) xs) \<subseteq> fst ` set pre"
proof -
  define ts where "ts = takeWhile (\<lambda>y. y \<noteq> c) xs"
  have cxs: "c \<in> set xs" using assms by (rule key_in_counter)
  obtain rest where xs: "xs = ts @ c # rest"
    using split_at_first [OF cxs] unfolding ts_def by blast
  have cts: "c \<notin> set ts" unfolding ts_def by (auto dest: set_takeWhileD)
  have cts': "c \<notin> set (map fst (counter ts))"
    using cts by (simp only: set_keys_counter not_False_eq_True)
  then have k1: "map fst (counter (ts @ [c])) = map fst (counter ts) @ [c]"
    by (simp add: counter_snoc keys_counter_add)
  have "fold counter_add xs [] = fold counter_add rest (fold counter_add (ts @ [c]) [])"
    unfolding xs by simp
  then have cx: "counter xs = fold counter_add rest (counter (ts @ [c]))"
    by (simp only: counter_def)
  obtain ks where ks: "map fst (fold counter_add rest (counter (ts @ [c]))) = map fst (counter (ts @ [c])) @ ks"
    using keys_fold_counter_add [of rest "counter (ts @ [c])"] by blast
  have "map fst (counter xs) = map fst (counter ts) @ c # ks"
    unfolding cx ks k1 by simp
  moreover have "map fst (counter xs) = map fst pre @ c # map fst post"
    unfolding assms by simp
  ultimately have eq: "map fst pre @ c # map fst post = map fst (counter ts) @ c # ks"
    by simp
  have "distinct (map fst pre @ c # map fst post)"
    using distinct_keys_counter [of xs] unfolding assms by simp
  then have cpre: "c \<notin> set (map fst pre)" by simp
  have "map fst pre = map fst (counter ts)"
    using eq cpre cts' by (rule prefix_before_unique)
  then have "set (map fst pre) = set ts" by (simp only: set_keys_counter)
  then show ?thesis unfolding ts_def by simp
qed

lemma most_common1_char:
  assumes "most_common1 xs = Some c"
  shows "c \<in> set xs"
    and "count_list xs y \<le> count_list xs c"
    and "y \<in> set (takeWhile (\<lambda>z. z \<noteq> c) xs) \<Longrightarrow> count_list xs y < count_list xs c"
proof -
  from assms obtain kv kvs where kv: "counter xs = kv # kvs" "c = fst (max_first kv kvs)"
    by (auto simp: most_common1_def split: list.splits)
  define n where "n = snd (max_first kv kvs)"
  have r: "max_first kv kvs = (c, n)" by (simp add: kv n_def)
  obtain pre post where sp: "counter xs = pre @ (c, n) # post"
     "\<forall>p \<in> set pre. snd p < n" "\<forall>p \<in> set post. snd p \<le> n"
    using max_first_split [of kv kvs] unfolding r kv(1) by auto
  have n: "n = count_list xs c" using counter_value [of c n xs] sp(1) by simp
  show c: "c \<in> set xs" using sp(1) by (rule key_in_counter)
  show "count_list xs y \<le> count_list xs c"
  proof (cases "y \<in> set xs")
    case True
    then have "y \<in> set (map fst (counter xs))" by (simp only: set_keys_counter)
    then obtain m where m: "(y, m) \<in> set (counter xs)" by auto
    then have "m = count_list xs y" by (rule counter_value)
    moreover have "m \<le> n" using m sp by (auto intro: less_imp_le)
    ultimately show ?thesis using n by simp
  next
    case False
    then show ?thesis by (simp add: count_list_0_iff)
  qed
  show "count_list xs y < count_list xs c" if "y \<in> set (takeWhile (\<lambda>z. z \<noteq> c) xs)"
  proof -
    from that keys_before_first [OF sp(1)] obtain m where m: "(y, m) \<in> set pre" by fastforce
    then have "(y, m) \<in> set (counter xs)" using sp(1) by simp
    then have "m = count_list xs y" by (rule counter_value)
    moreover have "m < n" using m sp(2) by auto
    ultimately show ?thesis using n by simp
  qed
qed

lemma words25_count: "length (py_split words25) = 25"
  by (simp add: words25_def ascii_def py_split_def py_isspace_def)

lemma sized_block_long: "is_long 20 (sized_block sz)"
  by (simp add: is_long_def sized_block_def words25_count)

section \<open>Rounding to a double: the values of the examples\<close>

lemmas round_double_eval =
  round_double_def binary_exponent_def round_half_even_def scale2_def bit_length.simps Let_def

lemma round_double_0: "round_double 0 = 0"
  by (simp add: round_double_def)

lemma round_double_15: "round_double (10 * 1.5) = 15"
  by (simp add: round_double_eval)

lemma round_double_22_3: "round_double (22 / 3) = 8256599316845909 / 1125899906842624"
  by (simp add: round_double_eval)

lemma round_double_11: "round_double (round_double (22 / 3) * 1.5) = 11"
  by (simp add: round_double_22_3) (simp add: round_double_eval)

lemma default_margin_double: "default_margin round_double = 1080863910568919 / 9007199254740992"
  by (simp add: default_margin_def round_double_eval)

lemma header_threshold_double:
  "round_double (792 * default_margin round_double) = 3343922723322593 / 35184372088832"
  by (simp add: default_margin_double) (simp add: round_double_eval)

lemma footer_threshold_double:
  "round_double (792 * round_double (1 - default_margin round_double)) =
     766315624094761 / 1099511627776"
proof -
  have d: "round_double (1 - default_margin round_double) = 7926335344172073 / 9007199254740992"
    by (simp add: default_margin_double) (simp add: round_double_eval)
  show ?thesis unfolding d by (simp add: round_double_eval)
qed

section \<open>Long-block filter\<close>

text \<open>
  The filter at a weighted mean of 0: a block of 25 words whose font size is 0, which is
  1.6 times the weighted mean, is removed. And at the weighted mean \<open>7.333333333333333\<close>,
  the double nearest to 22/3: in exact arithmetic 1.5 times this mean is below 11, the
  double product is 11.0, and a block of 25 words of font size 11 is removed.
\<close>

theorem long_block_filter_zero_mean_counterexample:
  "length (py_split (btext (sized_block 0))) = 25 \<and>
   real_of_int (font_size (sized_block 0)) = 1.6 * 0 \<and>
   filter_long_blocks round_double [sized_block 0] 0 20 = [] \<and>
   length (py_split (btext (sized_block 11))) = 25 \<and>
   round_double (22 / 3) * 1.5 < real_of_int (font_size (sized_block 11)) \<and>
   filter_long_blocks round_double [sized_block 11] (round_double (22 / 3)) 20 = []"
proof -
  have t: "btext (sized_block 0) = words25" "font_size (sized_block 0) = 0"
    "btext (sized_block 11) = words25" "font_size (sized_block 11) = 11"
    by (simp_all add: sized_block_def)
  have "\<not> is_large_font round_double 0 (sized_block 0)"
    by (simp add: is_large_font_def t round_double_0)
  then have 1: "filter_long_blocks round_double [sized_block 0] 0 20 = []"
    using sized_block_long [of 0] by (simp add: filter_long_blocks_def)
  have 2: "round_double (22 / 3) * 1.5 < real_of_int (font_size (sized_block 11))"
    by (simp add: t round_double_22_3)
  have "\<not> is_large_font round_double (round_double (22 / 3)) (sized_block 11)"
    unfolding is_large_font_def round_double_11 by (simp add: t)
  then have 3: "filter_long_blocks round_double [sized_block 11] (round_double (22 / 3)) 20 = []"
    using sized_block_long [of 11] by (simp add: filter_long_blocks_def)
  show ?thesis using 1 2 3 by (simp add: t words25_count)
qed

text \<open>
  C3 (amended). With the default of 20 words, the long-block filter removes a block iff it
  has more than 20 white-space delimited words and its font size does not exceed the double
  product \<open>weighted_mean * 1.5\<close>. When the weighted mean is positive and that product is
  rounded with a relative error of at most \<open>2 ^ -53\<close>, a block of 25 words with font size
  equal to the weighted mean is removed, and one with font size 1.6 times the weighted mean
  is kept.
\<close>

theorem long_block_filter_removes_iff:
  "filter_long_blocks rnd blocks w 20 =
     filter (\<lambda>b. \<not> (length (py_split (btext b)) > 20 \<and>
                     \<not> real_of_int (font_size b) > rnd (w * 1.5))) blocks \<and>
   (0 < w \<and> \<bar>rnd (w * 1.5) - w * 1.5\<bar> \<le> w * 1.5 / 2 ^ 53 \<longrightarrow>
     (\<forall>b \<in> set blocks. length (py_split (btext b)) = 25 \<longrightarrow>
        (real_of_int (font_size b) = w \<longrightarrow> b \<notin> set (filter_long_blocks rnd blocks w 20)) \<and>
        (real_of_int (font_size b) = 1.6 * w \<longrightarrow> b \<in> set (filter_long_blocks rnd blocks w 20))))"
proof (intro conjI impI ballI)
  show "filter_long_blocks rnd blocks w 20 =
     filter (\<lambda>b. \<not> (length (py_split (btext b)) > 20 \<and>
                     \<not> real_of_int (font_size b) > rnd (w * 1.5))) blocks"
    by (auto simp: filter_long_blocks_def is_long_def is_large_font_def)
next
  fix b
  assume h: "0 < w \<and> \<bar>rnd (w * 1.5) - w * 1.5\<bar> \<le> w * 1.5 / 2 ^ 53"
    and b: "b \<in> set blocks" and l: "length (py_split (btext b)) = 25"
  define d where "d = w * 1.5 / 2 ^ 53"
  have "d \<le> w / 100" using h by (simp add: d_def)
  moreover have "\<bar>rnd (w * 1.5) - w * 1.5\<bar> \<le> d" using h by (simp add: d_def)
  ultimately have lo: "w \<le> rnd (w * 1.5)" using h by linarith
  show "b \<notin> set (filter_long_blocks rnd blocks w 20)" if "real_of_int (font_size b) = w"
    using that lo l by (simp add: filter_long_blocks_def is_long_def is_large_font_def)
next
  fix b
  assume h: "0 < w \<and> \<bar>rnd (w * 1.5) - w * 1.5\<bar> \<le> w * 1.5 / 2 ^ 53"
    and b: "b \<in> set blocks" and l: "length (py_split (btext b)) = 25"
  define d where "d = w * 1.5 / 2 ^ 53"
  have "d \<le> w / 100" using h by (simp add: d_def)
  moreover have "\<bar>rnd (w * 1.5) - w * 1.5\<bar> \<le> d" using h by (simp add: d_def)
  ultimately have hi: "rnd (w * 1.5) < 1.6 * w" using h by linarith
  show "b \<in> set (filter_long_blocks rnd blocks w 20)" if "real_of_int (font_size b) = 1.6 * w"
    using that hi b by (auto simp: filter_long_blocks_def is_long_def is_large_font_def)
qed

theorem long_block_filter_removes_iff_witness:
  "(0::real) < 10 \<and>
   \<bar>round_double (10 * 1.5) - 10 * 1.5\<bar> \<le> 10 * 1.5 / 2 ^ 53 \<and>
   length (py_split (btext (sized_block 10))) = 25 \<and>
   length (py_split (btext (sized_block 16))) = 25 \<and>
   real_of_int (font_size (sized_block 10)) = 10 \<and>
   real_of_int (font_size (sized_block 16)) = 1.6 * 10 \<and>
   sized_block 10 \<notin> set (filter_long_blocks round_double [sized_block 10, sized_block 16] 10 20) \<and>
   sized_block 16 \<in> set (filter_long_blocks round_double [sized_block 10, sized_block 16] 10 20)"
proof -
  have l: "length (py_split (btext (sized_block 10))) = 25" "length (py_split (btext (sized_block 16))) = 25"
    by (simp_all add: sized_block_def words25_count)
  have f1: "real_of_int (font_size (sized_block 10)) = 10" by (simp add: sized_block_def)
  have f2: "real_of_int (font_size (sized_block 16)) = 1.6 * 10" by (simp add: sized_block_def)
  have w: "(0::real) < 10" by simp
  have e: "\<bar>round_double (10 * 1.5) - 10 * 1.5\<bar> \<le> 10 * 1.5 / 2 ^ 53"
    unfolding round_double_15 by simp
  have we: "(0::real) < 10 \<and> \<bar>round_double (10 * 1.5) - 10 * 1.5\<bar> \<le> 10 * 1.5 / 2 ^ 53"
    using w e by (rule conjI)
  have m: "sized_block 10 \<in> set [sized_block 10, sized_block 16]"
    "sized_block 16 \<in> set [sized_block 10, sized_block 16]" by simp_all
  note r = long_block_filter_removes_iff [of round_double "[sized_block 10, sized_block 16]" 10,
      THEN conjunct2, rule_format, OF we]
  have r1: "sized_block 10 \<notin> set (filter_long_blocks round_double [sized_block 10, sized_block 16] 10 20)"
    using r [OF m(1) l(1)] f1 by blast
  have r2: "sized_block 16 \<in> set (filter_long_blocks round_double [sized_block 10, sized_block 16] 10 20)"
    using r [OF m(2) l(2)] f2 by blast
  show ?thesis
    by (intro conjI w e l f1 f2 r1 r2)
qed

section \<open>Weighted mean font size\<close>

lemma weighted_sum_bounds:
  fixes f w :: "'a \<Rightarrow> int"
  assumes "\<forall>b \<in> set bs. m \<le> f b \<and> f b \<le> M" and "\<forall>b \<in> set bs. 0 \<le> w b"
  shows "m * (\<Sum>b\<leftarrow>bs. w b) \<le> (\<Sum>b\<leftarrow>bs. f b * w b) \<and> (\<Sum>b\<leftarrow>bs. f b * w b) \<le> M * (\<Sum>b\<leftarrow>bs. w b)"
  using assms
proof (induction bs)
  case Nil
  then show ?case by simp
next
  case (Cons x bs)
  have "m * w x \<le> f x * w x" "f x * w x \<le> M * w x"
    using Cons.prems by (auto intro: mult_right_mono)
  moreover have "m * (\<Sum>b\<leftarrow>bs. w b) \<le> (\<Sum>b\<leftarrow>bs. f b * w b) \<and> (\<Sum>b\<leftarrow>bs. f b * w b) \<le> M * (\<Sum>b\<leftarrow>bs. w b)"
    using Cons by simp
  ultimately show ?case by (simp add: distrib_left)
qed

text \<open>
  A collection of one block whose text is empty: the total character length is 0, the
  function returns 0, and 0 is below the only font size, 12.
\<close>

theorem weighted_mean_empty_text_counterexample:
  "[empty_text_block] \<noteq> [] \<and>
   calculate_weighted_mean_font_size [empty_text_block] = 0 \<and>
   Min (font_size ` set [empty_text_block]) = 12 \<and>
   \<not> real_of_int (Min (font_size ` set [empty_text_block]))
        \<le> calculate_weighted_mean_font_size [empty_text_block]"
  by (simp add: calculate_weighted_mean_font_size_def empty_text_block_def)

text \<open>
  C5 (amended). For every block collection whose total character length is positive,
  \<open>calculate_weighted_mean_font_size\<close> lies between the minimum and the maximum block
  font size (inclusive); when the total character length is 0 it returns 0.
\<close>

theorem weighted_mean_between_min_max:
  "(0 < (\<Sum>b\<leftarrow>blocks. length (btext b)) \<longrightarrow>
      real_of_int (Min (font_size ` set blocks)) \<le> calculate_weighted_mean_font_size blocks \<and>
      calculate_weighted_mean_font_size blocks \<le> real_of_int (Max (font_size ` set blocks))) \<and>
   ((\<Sum>b\<leftarrow>blocks. length (btext b)) = 0 \<longrightarrow> calculate_weighted_mean_font_size blocks = 0)"
proof (intro conjI impI)
  define W where "W = (\<Sum>b\<leftarrow>blocks. int (length (btext b)))"
  define S where "S = (\<Sum>b\<leftarrow>blocks. font_size b * int (length (btext b)))"
  have Wn: "W = int (\<Sum>b\<leftarrow>blocks. length (btext b))"
    unfolding W_def by (induction blocks) simp_all
  {
    assume "(\<Sum>b\<leftarrow>blocks. length (btext b)) = 0"
    then have "W = 0" using Wn by simp
    then show "calculate_weighted_mean_font_size blocks = 0"
      by (simp add: calculate_weighted_mean_font_size_def W_def Let_def)
  }
  assume pos: "0 < (\<Sum>b\<leftarrow>blocks. length (btext b))"
  then have W: "0 < W" using Wn by simp
  have ne: "blocks \<noteq> []" using pos by auto
  have r: "calculate_weighted_mean_font_size blocks = real_of_int S / real_of_int W"
    using W ne by (simp add: calculate_weighted_mean_font_size_def W_def S_def Let_def)
  define m where "m = Min (font_size ` set blocks)"
  define M where "M = Max (font_size ` set blocks)"
  have "\<forall>b \<in> set blocks. m \<le> font_size b \<and> font_size b \<le> M"
    unfolding m_def M_def by simp
  then have "m * W \<le> S \<and> S \<le> M * W"
    unfolding W_def S_def by (intro weighted_sum_bounds) simp_all
  then have "real_of_int (m * W) \<le> real_of_int S" "real_of_int S \<le> real_of_int (M * W)"
    by (simp_all only: of_int_le_iff)
  then have "real_of_int m \<le> real_of_int S / real_of_int W" "real_of_int S / real_of_int W \<le> real_of_int M"
    using W by (simp_all add: pos_le_divide_eq pos_divide_le_eq)
  then show "real_of_int (Min (font_size ` set blocks)) \<le> calculate_weighted_mean_font_size blocks"
    "calculate_weighted_mean_font_size blocks \<le> real_of_int (Max (font_size ` set blocks))"
    unfolding r m_def M_def by simp_all
qed

theorem weighted_mean_between_min_max_witness:
  "0 < (\<Sum>b\<leftarrow>[sized_block 10, sized_block 16]. length (btext b)) \<and>
   real_of_int (Min (font_size ` set [sized_block 10, sized_block 16]))
     \<le> calculate_weighted_mean_font_size [sized_block 10, sized_block 16] \<and>
   calculate_weighted_mean_font_size [sized_block 10, sized_block 16]
     \<le> real_of_int (Max (font_size ` set [sized_block 10, sized_block 16])) \<and>
   calculate_weighted_mean_font_size [sized_block 10, sized_block 16] = 13"
proof -
  have l: "length (btext (sized_block 10)) = 49" "length (btext (sized_block 16)) = 49"
    by (simp_all add: sized_block_def words25_def ascii_def)
  have p: "0 < (\<Sum>b\<leftarrow>[sized_block 10, sized_block 16]. length (btext b))"
    by (simp add: l)
  have v: "calculate_weighted_mean_font_size [sized_block 10, sized_block 16] = 13"
    by (simp add: calculate_weighted_mean_font_size_def l) (simp add: sized_block_def)
  show ?thesis
    using weighted_mean_between_min_max [of "[sized_block 10, sized_block 16]", THEN conjunct1, rule_format, OF p] p v
    by blast
qed

section \<open>Small-font filter\<close>

lemma majority_color_total: "\<exists>mc. majority_color blocks = Some mc"
  by (cases "blocks = []") (simp_all add: majority_color_def most_common1_total)

text \<open>
  Four blocks of the colours 1, 2, 2, 1 and a weighted mean of 11. Both colours occur
  twice; colour 2 is the first to reach the count 2, colour 1 is the first seen. The filter
  takes colour 1 as the majority colour: it drops the first block (colour 1, size 11, not
  bold) and keeps the second (colour 2). With colour 2 as the majority colour the first
  block would be kept and the second dropped.
\<close>

theorem small_font_tie_break_counterexample:
  "map color tie_blocks = [1, 2, 2, 1] \<and>
   first_reaching_highest_count (map color tie_blocks) = Some 2 \<and>
   majority_color tie_blocks = Some 1 \<and>
   filter_small_fonts_by_weighted_mean tie_blocks 11 =
     Some [colored_block 1 11 False 2, colored_block 1 11 True 2, colored_block 1 14 False 1] \<and>
   filter (keeps_small_font 11 2) tie_blocks =
     [colored_block 1 11 False 1, colored_block 1 11 True 2, colored_block 1 14 False 1]"
proof -
  have c: "map color tie_blocks = [1, 2, 2, 1]"
    by (simp add: tie_blocks_def colored_block_def)
  have r: "first_reaching_highest_count (map color tie_blocks) = Some 2"
    unfolding c by (simp add: first_reaching_highest_count_def highest_count_def)
  have m: "majority_color tie_blocks = Some 1"
    by (simp add: majority_color_def c most_common1_def counter_def)
  have f: "filter_small_fonts_by_weighted_mean tie_blocks 11 =
     Some [colored_block 1 11 False 2, colored_block 1 11 True 2, colored_block 1 14 False 1]"
    by (simp add: filter_small_fonts_by_weighted_mean_def m)
       (simp add: tie_blocks_def colored_block_def keeps_small_font_def)
  have g: "filter (keeps_small_font 11 2) tie_blocks =
     [colored_block 1 11 False 1, colored_block 1 11 True 2, colored_block 1 14 False 1]"
    by (simp add: tie_blocks_def colored_block_def keeps_small_font_def)
  show ?thesis by (intro conjI c r m f g)
qed

text \<open>
  C4 (amended). For a non-empty block collection the small-font filter does not fail, and it keeps
  exactly the blocks whose font size strictly exceeds the weighted mean, or that are bold,
  or whose colour differs from the majority colour. The majority colour is a colour of the
  input whose number of occurrences no colour exceeds, and every colour that occurs before
  the first occurrence of the majority colour occurs strictly less often: among the colours
  with the highest count it is the one seen first.
\<close>

theorem small_font_filter_keeps_iff:
  "blocks \<noteq> [] \<longrightarrow>
   (\<exists>mc. filter_small_fonts_by_weighted_mean blocks w =
            Some (filter (\<lambda>b. real_of_int (font_size b) > w \<or> is_bold b \<or> color b \<noteq> mc) blocks) \<and>
         mc \<in> set (map color blocks) \<and>
         (\<forall>c. count_list (map color blocks) c \<le> count_list (map color blocks) mc) \<and>
         (\<forall>c \<in> set (takeWhile (\<lambda>c. c \<noteq> mc) (map color blocks)).
            count_list (map color blocks) c < count_list (map color blocks) mc))"
proof
  assume ne: "blocks \<noteq> []"
  then have cne: "map color blocks \<noteq> []" by simp
  obtain mc where mc: "most_common1 (map color blocks) = Some mc"
    using most_common1_total [OF cne] by (rule exE)
  have m: "majority_color blocks = Some mc"
    using ne mc by (simp add: majority_color_def)
  have f: "filter_small_fonts_by_weighted_mean blocks w =
          Some (filter (\<lambda>b. real_of_int (font_size b) > w \<or> is_bold b \<or> color b \<noteq> mc) blocks)"
    using ne m by (simp add: filter_small_fonts_by_weighted_mean_def keeps_small_font_def [abs_def])
  have c1: "mc \<in> set (map color blocks)"
    by (rule most_common1_char(1) [OF mc])
  have c2: "\<forall>c. count_list (map color blocks) c \<le> count_list (map color blocks) mc"
    by (rule allI) (rule most_common1_char(2) [OF mc])
  have c3: "\<forall>c \<in> set (takeWhile (\<lambda>c. c \<noteq> mc) (map color blocks)).
            count_list (map color blocks) c < count_list (map color blocks) mc"
    by (rule ballI) (rule most_common1_char(3) [OF mc])
  show "\<exists>mc. filter_small_fonts_by_weighted_mean blocks w =
            Some (filter (\<lambda>b. real_of_int (font_size b) > w \<or> is_bold b \<or> color b \<noteq> mc) blocks) \<and>
         mc \<in> set (map color blocks) \<and>
         (\<forall>c. count_list (map color blocks) c \<le> count_list (map color blocks) mc) \<and>
         (\<forall>c \<in> set (takeWhile (\<lambda>c. c \<noteq> mc) (map color blocks)).
            count_list (map color blocks) c < count_list (map color blocks) mc)"
    by (rule exI [of _ mc]) (intro conjI f c1 c2 c3)
qed

lemma tie_blocks_majority: "majority_color tie_blocks = Some 1"
  by (simp add: majority_color_def tie_blocks_def colored_block_def most_common1_def counter_def)

lemma tie_blocks_filtered:
  "filter_small_fonts_by_weighted_mean tie_blocks 11 =
     Some [colored_block 1 11 False 2, colored_block 1 11 True 2, colored_block 1 14 False 1]"
  by (simp add: filter_small_fonts_by_weighted_mean_def tie_blocks_majority)
     (simp add: tie_blocks_def colored_block_def keeps_small_font_def)

theorem small_font_filter_keeps_iff_witness:
  "tie_blocks \<noteq> [] \<and>
   (\<exists>mc. filter_small_fonts_by_weighted_mean tie_blocks 11 =
            Some (filter (\<lambda>b. real_of_int (font_size b) > 11 \<or> is_bold b \<or> color b \<noteq> mc) tie_blocks) \<and>
         mc \<in> set (map color tie_blocks) \<and>
         (\<forall>c. count_list (map color tie_blocks) c \<le> count_list (map color tie_blocks) mc) \<and>
         (\<forall>c \<in> set (takeWhile (\<lambda>c. c \<noteq> mc) (map color tie_blocks)).
            count_list (map color tie_blocks) c < count_list (map color tie_blocks) mc)) \<and>
   filter_small_fonts_by_weighted_mean tie_blocks 11 =
     Some [colored_block 1 11 False 2, colored_block 1 11 True 2, colored_block 1 14 False 1]"
proof -
  have ne: "tie_blocks \<noteq> []" by (simp add: tie_blocks_def)
  note t = small_font_filter_keeps_iff [of tie_blocks 11, THEN mp, OF ne]
  show ?thesis
    by (intro conjI ne t tie_blocks_filtered)
qed

section \<open>The filters only remove blocks\<close>

text \<open>
  C9. The header/footer filter, the long-block filter and the small-font filter each
  return a subsequence of the input list: the surviving blocks are the input blocks
  themselves, every field unchanged, in their original relative order. The small-font
  filter always returns a result.
\<close>

theorem filters_return_subsequence:
  "subseq (filter_header_footer_blocks rnd blocks page_count header_margin footer_margin) blocks \<and>
   subseq (filter_long_blocks rnd blocks w max_words) blocks \<and>
   (\<exists>kept. filter_small_fonts_by_weighted_mean blocks w = Some kept \<and> subseq kept blocks)"
proof (intro conjI)
  show "subseq (filter_header_footer_blocks rnd blocks page_count header_margin footer_margin) blocks"
    by (simp add: filter_header_footer_blocks_def Let_def)
  show "subseq (filter_long_blocks rnd blocks w max_words) blocks"
    by (simp add: filter_long_blocks_def)
  obtain mc where "majority_color blocks = Some mc"
    using majority_color_total by blast
  then show "\<exists>kept. filter_small_fonts_by_weighted_mean blocks w = Some kept \<and> subseq kept blocks"
    by (simp add: filter_small_fonts_by_weighted_mean_def)
qed

theorem filters_return_subsequence_witness:
  "subseq (filter_header_footer_blocks round_double tie_blocks 2
             (default_margin round_double) (default_margin round_double)) tie_blocks \<and>
   subseq (filter_long_blocks round_double tie_blocks 11 20) tie_blocks \<and>
   (\<exists>kept. filter_small_fonts_by_weighted_mean tie_blocks 11 = Some kept \<and> subseq kept tie_blocks)"
  by (rule filters_return_subsequence)

section \<open>Header and footer filter\<close>

lemma min_pages_half: "min_pages page_count 0.5 = max 2 \<lfloor>real_of_int page_count * 0.5\<rfloor>"
proof (cases "real_of_int page_count * 0.5 \<ge> 0")
  case True
  then show ?thesis by (simp add: min_pages_def py_int_def Let_def max_def)
next
  case False
  then have "\<lceil>real_of_int page_count * 0.5\<rceil> \<le> 0" "\<lfloor>real_of_int page_count * 0.5\<rfloor> \<le> 0"
    by (simp_all add: ceiling_le_iff floor_le_iff)
  then show ?thesis using False by (simp add: min_pages_def py_int_def Let_def max_def)
qed

lemma min_pages_half_simp: "min_pages page_count (1 / 2) = max 2 \<lfloor>real_of_int page_count / 2\<rfloor>"
  using min_pages_half [of page_count] by simp

lemma in_find_repeating_texts:
  "b \<in> set blocks \<Longrightarrow> page_count \<noteq> 0 \<Longrightarrow>
   btext b \<in> find_repeating_texts blocks page_count 0.5 \<longleftrightarrow>
     int (card (text_page_map blocks (btext b))) \<ge> max 2 \<lfloor>real_of_int page_count * 0.5\<rfloor>"
  by (auto simp: find_repeating_texts_def min_pages_half_simp)

lemma repeating_at_least_two:
  "t \<in> find_repeating_texts blocks page_count 0.5 \<Longrightarrow> 2 \<le> card (text_page_map blocks t)"
  by (auto simp: find_repeating_texts_def min_pages_half_simp split: if_splits)

lemma filter_header_footer_blocks_eq:
  "filter_header_footer_blocks rnd blocks page_count hm fm =
     filter (\<lambda>b. \<not> is_header_footer rnd (find_repeating_texts blocks page_count 0.5) hm fm b) blocks"
  by (auto simp: filter_header_footer_blocks_def Let_def is_header_footer_def)

text \<open>
  C2 (amended). For every block collection and every page count other than 0, the
  header/footer filter with the default margins removes a block iff its text occurs on at
  least \<open>max(2, floor(page_count * 0.5))\<close> distinct pages and the top edge of its box is below
  \<open>792 * 0.12\<close> or the bottom edge is above \<open>792 * (1 - 0.12)\<close>, where \<open>0.12\<close> is the double
  nearest to it and the difference and the products are those of double arithmetic. When the
  page count is 0 the filter returns its input. For every page count, a block whose text
  occurs on exactly one distinct page is kept.
\<close>

theorem header_footer_filter_removes_iff:
  "(page_count \<noteq> 0 \<longrightarrow>
      filter_header_footer_blocks rnd blocks page_count (default_margin rnd) (default_margin rnd) =
        filter (\<lambda>b. \<not> (int (card (text_page_map blocks (btext b)))
                           \<ge> max 2 \<lfloor>real_of_int page_count * 0.5\<rfloor> \<and>
                         (y0 (bbox b) < rnd (792 * default_margin rnd) \<or>
                          y1 (bbox b) > rnd (792 * rnd (1 - default_margin rnd))))) blocks) \<and>
   (page_count = 0 \<longrightarrow>
      filter_header_footer_blocks rnd blocks page_count (default_margin rnd) (default_margin rnd) =
        blocks) \<and>
   (\<forall>b \<in> set blocks. card (text_page_map blocks (btext b)) = 1 \<longrightarrow>
      b \<in> set (filter_header_footer_blocks rnd blocks page_count
                 (default_margin rnd) (default_margin rnd)))"
proof (intro conjI impI ballI)
  assume pc: "page_count \<noteq> 0"
  show "filter_header_footer_blocks rnd blocks page_count (default_margin rnd) (default_margin rnd) =
        filter (\<lambda>b. \<not> (int (card (text_page_map blocks (btext b)))
                           \<ge> max 2 \<lfloor>real_of_int page_count * 0.5\<rfloor> \<and>
                         (y0 (bbox b) < rnd (792 * default_margin rnd) \<or>
                          y1 (bbox b) > rnd (792 * rnd (1 - default_margin rnd))))) blocks"
    unfolding filter_header_footer_blocks_eq
  proof (rule filter_cong [OF refl])
    fix b assume b: "b \<in> set blocks"
    show "(\<not> is_header_footer rnd (find_repeating_texts blocks page_count 0.5)
              (default_margin rnd) (default_margin rnd) b) =
      (\<not> (int (card (text_page_map blocks (btext b)))
                           \<ge> max 2 \<lfloor>real_of_int page_count * 0.5\<rfloor> \<and>
                         (y0 (bbox b) < rnd (792 * default_margin rnd) \<or>
                          y1 (bbox b) > rnd (792 * rnd (1 - default_margin rnd)))))"
      unfolding is_header_footer_def Let_def in_find_repeating_texts [OF b pc] by simp
  qed
next
  assume "page_count = 0"
  then show "filter_header_footer_blocks rnd blocks page_count (default_margin rnd) (default_margin rnd)
      = blocks"
    by (simp add: filter_header_footer_blocks_def find_repeating_texts_def)
next
  fix b assume b: "b \<in> set blocks" and one: "card (text_page_map blocks (btext b)) = 1"
  have "btext b \<notin> find_repeating_texts blocks page_count 0.5"
    using repeating_at_least_two [of "btext b" blocks page_count] one by auto
  then show "b \<in> set (filter_header_footer_blocks rnd blocks page_count
                 (default_margin rnd) (default_margin rnd))"
    using b unfolding filter_header_footer_blocks_eq by (simp add: is_header_footer_def)
qed

lemma header_pages:
  "text_page_map [header_block 1, title_block, header_block 2] (btext (header_block p)) = {1, 2}"
  "text_page_map [header_block 1, title_block, header_block 2] (btext title_block) = {1}"
  by (auto simp: text_page_map_def header_block_def title_block_def ascii_def)

lemma edge_pages: "text_page_map [edge_block 1, edge_block 2] (btext (edge_block p)) = {1, 2}"
  by (auto simp: text_page_map_def edge_block_def)

lemma edge_blocks_kept:
  "filter_header_footer_blocks round_double [edge_block 1, edge_block 2] 2
     (default_margin round_double) (default_margin round_double) = [edge_block 1, edge_block 2]"
proof -
  have "\<not> is_header_footer round_double R (default_margin round_double)
           (default_margin round_double) (edge_block p)" for R p
    by (simp add: is_header_footer_def header_threshold_double footer_threshold_double)
       (simp add: edge_block_def)
  then show ?thesis by (simp add: filter_header_footer_blocks_eq)
qed

text \<open>
  At page count 0 a header that occurs on two pages, in the top band, is kept, although two
  pages are at least \<open>max(2, floor(0 * 0.5))\<close>. And at page count 2 a block that occurs on
  two pages with its top edge at the double \<open>95.03999999999999\<close> is kept: the edge is below
  the exact product \<open>792 * 0.12 = 95.04\<close>, but not below the double product.
\<close>

theorem header_footer_zero_page_count_counterexample:
  "int (card (text_page_map [header_block 1, title_block, header_block 2] (btext (header_block 1))))
     \<ge> max 2 \<lfloor>real_of_int 0 * 0.5\<rfloor> \<and>
   y0 (bbox (header_block 1)) < round_double (792 * default_margin round_double) \<and>
   header_block 1 \<in> set (filter_header_footer_blocks round_double
                            [header_block 1, title_block, header_block 2] 0
                            (default_margin round_double) (default_margin round_double)) \<and>
   int (card (text_page_map [edge_block 1, edge_block 2] (btext (edge_block 1))))
     \<ge> max 2 \<lfloor>real_of_int 2 * 0.5\<rfloor> \<and>
   y0 (bbox (edge_block 1)) < 792 * 0.12 \<and>
   edge_block 1 \<in> set (filter_header_footer_blocks round_double [edge_block 1, edge_block 2] 2
                          (default_margin round_double) (default_margin round_double))"
proof -
  have 1: "int (card (text_page_map [header_block 1, title_block, header_block 2]
             (btext (header_block 1)))) \<ge> max 2 \<lfloor>real_of_int 0 * 0.5\<rfloor>"
    by (simp add: header_pages)
  have 2: "y0 (bbox (header_block 1)) < round_double (792 * default_margin round_double)"
    by (simp add: header_threshold_double header_block_def)
  have 3: "header_block 1 \<in> set (filter_header_footer_blocks round_double
                            [header_block 1, title_block, header_block 2] 0
                            (default_margin round_double) (default_margin round_double))"
    by (simp add: filter_header_footer_blocks_def find_repeating_texts_def)
  have 4: "int (card (text_page_map [edge_block 1, edge_block 2] (btext (edge_block 1))))
     \<ge> max 2 \<lfloor>real_of_int 2 * 0.5\<rfloor>"
    by (simp add: edge_pages)
  have 5: "y0 (bbox (edge_block 1)) < 792 * 0.12"
    by (simp add: edge_block_def)
  have 6: "edge_block 1 \<in> set (filter_header_footer_blocks round_double [edge_block 1, edge_block 2] 2
                          (default_margin round_double) (default_margin round_double))"
    by (simp add: edge_blocks_kept)
  show ?thesis by (intro conjI 1 2 3 4 5 6)
qed

theorem header_footer_filter_removes_iff_witness:
  "(2::int) \<noteq> 0 \<and>
   filter_header_footer_blocks round_double [header_block 1, title_block, header_block 2] 2
     (default_margin round_double) (default_margin round_double) = [title_block] \<and>
   title_block \<in> set [header_block 1, title_block, header_block 2] \<and>
   card (text_page_map [header_block 1, title_block, header_block 2] (btext title_block)) = 1 \<and>
   title_block \<in> set (filter_header_footer_blocks round_double
                         [header_block 1, title_block, header_block 2] 2
                         (default_margin round_double) (default_margin round_double))"
proof -
  have pc: "(2::int) \<noteq> 0" by simp
  have m: "title_block \<in> set [header_block 1, title_block, header_block 2]" by simp
  have c: "card (text_page_map [header_block 1, title_block, header_block 2] (btext title_block)) = 1"
    by (simp add: header_pages)
  note t = header_footer_filter_removes_iff
             [of 2 round_double "[header_block 1, title_block, header_block 2]"]
  have e: "filter_header_footer_blocks round_double [header_block 1, title_block, header_block 2] 2
     (default_margin round_double) (default_margin round_double) = [title_block]"
    unfolding t [THEN conjunct1, THEN mp, OF pc]
    by (simp add: header_pages header_threshold_double footer_threshold_double)
       (simp add: header_block_def title_block_def)
  have k: "title_block \<in> set (filter_header_footer_blocks round_double
                         [header_block 1, title_block, header_block 2] 2
                         (default_margin round_double) (default_margin round_double))"
    using t [THEN conjunct2, THEN conjunct2, rule_format, OF m c] .
  show ?thesis by (intro conjI pc e m c k)
qed

section \<open>Feature engineer\<close>

lemma truncate_add_features: "block.truncate (add_features m b) = b"
  by (simp add: add_features_def block.truncate_def block.extend_def)

lemma relative_add_features:
  "0 < m \<Longrightarrow> relative_font_size (add_features m b) = real_of_int (font_size b) / real_of_int m"
  by (simp add: add_features_def block.extend_def)

lemma positive_sizes_Nil:
  "map font_size (filter (\<lambda>b. font_size b > 0) blocks) = [] \<longleftrightarrow> (\<forall>b \<in> set blocks. font_size b \<le> 0)"
  by (auto simp: filter_empty_conv not_less)

lemma engineer_positive:
  assumes "\<exists>b \<in> set blocks. font_size b > 0"
  shows "\<exists>m. most_common1 (map font_size (filter (\<lambda>b. font_size b > 0) blocks)) = Some m \<and> 0 < m \<and>
             engineer_layout_features blocks = Some (map (add_features m) blocks)"
proof -
  define sizes where "sizes = map font_size (filter (\<lambda>b. font_size b > 0) blocks)"
  have ne: "sizes \<noteq> []" using assms unfolding sizes_def positive_sizes_Nil by (auto simp: not_le)
  obtain m where m: "most_common1 sizes = Some m"
    using most_common1_total [OF ne] by (rule exE)
  have "m \<in> set sizes" by (rule most_common1_char(1) [OF m])
  then have pos: "0 < m" unfolding sizes_def by auto
  have bne: "blocks \<noteq> []" using assms by auto
  have "engineer_layout_features blocks = Some (map (add_features m) blocks)"
    using bne ne m by (simp add: engineer_layout_features_def Let_def sizes_def [symmetric])
  then show ?thesis using m pos unfolding sizes_def by blast
qed

text \<open>
  C10. For every block collection with at least one block of positive font size,
  \<open>engineer_layout_features\<close> returns a result: as many records as blocks, in the same
  order, each the input block extended by the five fields of \<open>fblock\<close>; cutting the five
  fields off gives back the input, so every field of the input is unchanged.
\<close>

theorem engineer_extends_blocks:
  "(\<exists>b \<in> set blocks. font_size b > 0) \<longrightarrow>
   (\<exists>featured. engineer_layout_features blocks = Some featured \<and>
               length featured = length blocks \<and>
               map block.truncate featured = blocks)"
proof
  assume "\<exists>b \<in> set blocks. font_size b > 0"
  then obtain m where "engineer_layout_features blocks = Some (map (add_features m) blocks)"
    using engineer_positive by blast
  moreover have "map block.truncate (map (add_features m) blocks) = blocks"
    by (simp add: truncate_add_features comp_def)
  ultimately show "\<exists>featured. engineer_layout_features blocks = Some featured \<and>
               length featured = length blocks \<and> map block.truncate featured = blocks"
    by simp
qed

theorem engineer_extends_blocks_witness:
  "(\<exists>b \<in> set modal_example. font_size b > 0) \<and>
   (\<exists>featured. engineer_layout_features modal_example = Some featured \<and>
               length featured = length modal_example \<and>
               map block.truncate featured = modal_example)"
proof -
  have p: "\<exists>b \<in> set modal_example. font_size b > 0"
    by (simp add: modal_example_def colored_block_def)
  show ?thesis
    by (intro conjI p engineer_extends_blocks [of modal_example, THEN mp, OF p])
qed

text \<open>
  One block whose font size is 0: there is no modal font size, and the result is the empty
  list, not the block with a relative font size of 0.
\<close>

theorem engineer_no_positive_size_counterexample:
  "engineer_layout_features [sized_block 0] = Some [] \<and>
   engineer_layout_features [sized_block 0] \<noteq> Some [add_features 0 (sized_block 0)] \<and>
   relative_font_size (add_features 0 (sized_block 0)) = 0"
  by (simp add: engineer_layout_features_def add_features_def block.extend_def)
     (simp add: sized_block_def)

text \<open>
  C6 (amended). When no block has a positive font size, \<open>engineer_layout_features\<close>
  returns the empty collection. Otherwise it returns a result in which every input block has
  \<open>relative_font_size = font_size / modal_font_size\<close>, where the modal font size is positive
  (no division by zero), is the most frequent font size among the blocks with positive font
  size, and is the first seen of the sizes with that frequency. For the font sizes
  18, 18, 11, 11, 11 the modal size is 11 and a block of size 18 gets 18/11, which is 1.636
  to three decimals.
\<close>

theorem relative_font_size_by_modal:
  "((\<forall>b \<in> set blocks. font_size b \<le> 0) \<longrightarrow> engineer_layout_features blocks = Some []) \<and>
   ((\<exists>b \<in> set blocks. font_size b > 0) \<longrightarrow>
      (\<exists>modal featured.
         engineer_layout_features blocks = Some featured \<and> 0 < modal \<and>
         modal \<in> set (map font_size (filter (\<lambda>b. font_size b > 0) blocks)) \<and>
         (\<forall>s. count_list (map font_size (filter (\<lambda>b. font_size b > 0) blocks)) s
                \<le> count_list (map font_size (filter (\<lambda>b. font_size b > 0) blocks)) modal) \<and>
         (\<forall>s \<in> set (takeWhile (\<lambda>s. s \<noteq> modal) (map font_size (filter (\<lambda>b. font_size b > 0) blocks))).
            count_list (map font_size (filter (\<lambda>b. font_size b > 0) blocks)) s
              < count_list (map font_size (filter (\<lambda>b. font_size b > 0) blocks)) modal) \<and>
         map relative_font_size featured =
           map (\<lambda>b. real_of_int (font_size b) / real_of_int modal) blocks))"
proof (intro conjI impI)
  assume "\<forall>b \<in> set blocks. font_size b \<le> 0"
  then have "map font_size (filter (\<lambda>b. font_size b > 0) blocks) = []"
    by (simp only: positive_sizes_Nil)
  then show "engineer_layout_features blocks = Some []"
    by (simp add: engineer_layout_features_def)
next
  define sizes where "sizes = map font_size (filter (\<lambda>b. font_size b > 0) blocks)"
  assume "\<exists>b \<in> set blocks. font_size b > 0"
  then obtain m where m: "most_common1 sizes = Some m" "0 < m"
    and e: "engineer_layout_features blocks = Some (map (add_features m) blocks)"
    using engineer_positive unfolding sizes_def by blast
  have c1: "m \<in> set sizes" by (rule most_common1_char(1) [OF m(1)])
  have c2: "\<forall>s. count_list sizes s \<le> count_list sizes m"
    by (rule allI) (rule most_common1_char(2) [OF m(1)])
  have c3: "\<forall>s \<in> set (takeWhile (\<lambda>s. s \<noteq> m) sizes). count_list sizes s < count_list sizes m"
    by (rule ballI) (rule most_common1_char(3) [OF m(1)])
  have r: "map relative_font_size (map (add_features m) blocks) =
           map (\<lambda>b. real_of_int (font_size b) / real_of_int m) blocks"
    using m(2) by (simp add: relative_add_features comp_def)
  have "\<exists>modal featured.
         engineer_layout_features blocks = Some featured \<and> 0 < modal \<and>
         modal \<in> set sizes \<and>
         (\<forall>s. count_list sizes s \<le> count_list sizes modal) \<and>
         (\<forall>s \<in> set (takeWhile (\<lambda>s. s \<noteq> modal) sizes). count_list sizes s < count_list sizes modal) \<and>
         map relative_font_size featured =
           map (\<lambda>b. real_of_int (font_size b) / real_of_int modal) blocks"
    by (rule exI [of _ m], rule exI [of _ "map (add_features m) blocks"]) (intro conjI e m(2) c1 c2 c3 r)
  then show "\<exists>modal featured.
         engineer_layout_features blocks = Some featured \<and> 0 < modal \<and>
         modal \<in> set (map font_size (filter (\<lambda>b. font_size b > 0) blocks)) \<and>
         (\<forall>s. count_list (map font_size (filter (\<lambda>b. font_size b > 0) blocks)) s
                \<le> count_list (map font_size (filter (\<lambda>b. font_size b > 0) blocks)) modal) \<and>
         (\<forall>s \<in> set (takeWhile (\<lambda>s. s \<noteq> modal) (map font_size (filter (\<lambda>b. font_size b > 0) blocks))).
            count_list (map font_size (filter (\<lambda>b. font_size b > 0) blocks)) s
              < count_list (map font_size (filter (\<lambda>b. font_size b > 0) blocks)) modal) \<and>
         map relative_font_size featured =
           map (\<lambda>b. real_of_int (font_size b) / real_of_int modal) blocks"
    unfolding sizes_def .
qed

lemma modal_example_sizes:
  "map font_size (filter (\<lambda>b. font_size b > 0) modal_example) = [18, 18, 11, 11, 11]"
  by (simp add: modal_example_def colored_block_def)

lemma modal_example_featured:
  "engineer_layout_features modal_example = Some (map (add_features 11) modal_example)"
proof -
  have "modal_example \<noteq> []" by (simp add: modal_example_def)
  moreover have "most_common1 [18, 18, 11, 11, 11 :: int] = Some 11"
    by (simp add: most_common1_def counter_def)
  ultimately show ?thesis
    by (simp add: engineer_layout_features_def Let_def modal_example_sizes)
qed

theorem relative_font_size_by_modal_witness:
  "(\<exists>b \<in> set modal_example. font_size b > 0) \<and>
   (\<exists>modal featured.
         engineer_layout_features modal_example = Some featured \<and> 0 < modal \<and>
         modal \<in> set (map font_size (filter (\<lambda>b. font_size b > 0) modal_example)) \<and>
         (\<forall>s. count_list (map font_size (filter (\<lambda>b. font_size b > 0) modal_example)) s
                \<le> count_list (map font_size (filter (\<lambda>b. font_size b > 0) modal_example)) modal) \<and>
         (\<forall>s \<in> set (takeWhile (\<lambda>s. s \<noteq> modal) (map font_size (filter (\<lambda>b. font_size b > 0) modal_example))).
            count_list (map font_size (filter (\<lambda>b. font_size b > 0) modal_example)) s
              < count_list (map font_size (filter (\<lambda>b. font_size b > 0) modal_example)) modal) \<and>
         map relative_font_size featured =
           map (\<lambda>b. real_of_int (font_size b) / real_of_int modal) modal_example) \<and>
   font_size (sized_block 0) \<le> 0 \<and> font_size (sized_block (-3)) \<le> 0 \<and>
   engineer_layout_features [sized_block 0, sized_block (-3)] = Some [] \<and>
   map font_size modal_example = [18, 18, 11, 11, 11] \<and>
   map_option (map relative_font_size) (engineer_layout_features modal_example)
     = Some [18 / 11, 18 / 11, 1, 1, 1] \<and>
   \<bar>18 / 11 - 1.636\<bar> < (0.001 :: real)"
proof -
  have p: "\<exists>b \<in> set modal_example. font_size b > 0"
    by (simp add: modal_example_def colored_block_def)
  have n: "\<forall>b \<in> set [sized_block 0, sized_block (-3)]. font_size b \<le> 0"
    by (simp add: sized_block_def)
  note t1 = relative_font_size_by_modal [of modal_example, THEN conjunct2, THEN mp, OF p]
  note t2 = relative_font_size_by_modal [of "[sized_block 0, sized_block (-3)]", THEN conjunct1, THEN mp, OF n]
  have s: "map font_size modal_example = [18, 18, 11, 11, 11]"
    by (simp add: modal_example_def colored_block_def)
  have v: "map_option (map relative_font_size) (engineer_layout_features modal_example)
     = Some [18 / 11, 18 / 11, 1, 1, 1]"
    by (simp add: modal_example_featured comp_def relative_add_features)
       (simp add: modal_example_def colored_block_def)
  have a: "\<bar>18 / 11 - 1.636\<bar> < (0.001 :: real)" by simp
  have n0: "font_size (sized_block 0) \<le> 0" and n3: "font_size (sized_block (-3)) \<le> 0"
    by (simp_all add: sized_block_def)
  show ?thesis by (intro conjI p t1 n0 n3 t2 s v a)
qed

section \<open>Text cleanup\<close>

subsection \<open>Stripping at both ends\<close>

lemma dropWhile_fixed: "s \<noteq> [] \<Longrightarrow> \<not> P (hd s) \<Longrightarrow> dropWhile P s = s"
  by (cases s) simp_all

lemma rev_split_dropWhile: "v = rev (dropWhile P (rev v)) @ rev (takeWhile P (rev v))"
proof -
  have "rev (dropWhile P (rev v)) @ rev (takeWhile P (rev v)) =
        rev (takeWhile P (rev v) @ dropWhile P (rev v))"
    by (simp only: rev_append)
  also have "\<dots> = rev (rev v)" by (simp only: takeWhile_dropWhile_id)
  also have "\<dots> = v" by simp
  finally show ?thesis by (rule sym)
qed

lemma strip_both_fixed:
  assumes s: "s \<noteq> []" and h: "\<not> P (hd s)" and l: "\<not> P (last s)"
  shows "rev (dropWhile P (rev (dropWhile P s))) = s"
proof -
  have 1: "dropWhile P s = s" using s h by (rule dropWhile_fixed)
  have "rev s \<noteq> []" using s by simp
  moreover have "\<not> P (hd (rev s))" using s l by (simp add: hd_rev)
  ultimately have "dropWhile P (rev s) = rev s" by (rule dropWhile_fixed)
  then show ?thesis by (simp only: 1 rev_rev_ident)
qed

lemma strip_both_infix:
  "\<exists>pre post. s = pre @ rev (dropWhile P (rev (dropWhile P s))) @ post"
proof -
  define v where "v = dropWhile P s"
  have "s = takeWhile P s @ v" by (simp add: v_def)
  also have "v = rev (dropWhile P (rev v)) @ rev (takeWhile P (rev v))"
    by (rule rev_split_dropWhile)
  finally have "s = takeWhile P s @ rev (dropWhile P (rev v)) @ rev (takeWhile P (rev v))" .
  then show ?thesis unfolding v_def by (intro exI)
qed

lemma strip_both_ends:
  assumes "rev (dropWhile P (rev (dropWhile P s))) \<noteq> []"
  shows "\<not> P (hd (rev (dropWhile P (rev (dropWhile P s))))) \<and>
         \<not> P (last (rev (dropWhile P (rev (dropWhile P s)))))"
proof -
  define v where "v = dropWhile P s"
  define t where "t = rev (dropWhile P (rev v))"
  have t: "t \<noteq> []" using assms by (simp only: t_def v_def not_False_eq_True)
  have d: "dropWhile P (rev v) \<noteq> []" using t by (simp only: t_def rev_is_Nil_conv not_False_eq_True)
  then have "\<not> P (hd (dropWhile P (rev v)))" by (rule hd_dropWhile)
  moreover have "last t = hd (dropWhile P (rev v))"
    unfolding t_def using d by (simp only: last_rev)
  ultimately have l: "\<not> P (last t)" by simp
  have vt: "v = t @ rev (takeWhile P (rev v))"
    unfolding t_def by (rule rev_split_dropWhile)
  have "t @ rev (takeWhile P (rev v)) \<noteq> []" using t by simp
  then have "v \<noteq> []" by (subst vt)
  then have "\<not> P (hd v)" unfolding v_def by (rule hd_dropWhile)
  moreover have "hd v = hd t" using t by (subst vt) (rule hd_append2)
  ultimately have h: "\<not> P (hd t)" by simp
  show ?thesis using h l unfolding t_def v_def by (rule conjI)
qed

subsection \<open>Collapsing white space\<close>

lemma sub_ws_space: "py_isspace c \<Longrightarrow> sub_ws (c # cs) = 32 # sub_ws (dropWhile py_isspace cs)"
  by simp

lemma sub_ws_other: "\<not> py_isspace c \<Longrightarrow> sub_ws (c # cs) = c # sub_ws cs"
  by simp

lemma single_spaced_Cons_other:
  "\<not> py_isspace c \<Longrightarrow> single_spaced (c # cs) = single_spaced cs"
  by (cases cs) simp_all

lemma single_spaced_Cons_space:
  "py_isspace c \<Longrightarrow> single_spaced (c # cs) \<longleftrightarrow>
     c = 32 \<and> (case cs of [] \<Rightarrow> True | d # ds \<Rightarrow> \<not> py_isspace d \<and> single_spaced cs)"
  by (cases cs) simp_all

lemma sub_ws_single_spaced: "single_spaced (sub_ws s)"
proof (induction s rule: sub_ws.induct)
  case 1
  show ?case by simp
next
  case (2 c cs)
  show ?case
  proof (cases "py_isspace c")
    case True
    have sp: "py_isspace 32" by (simp add: py_isspace_def)
    have e: "sub_ws (c # cs) = 32 # sub_ws (dropWhile py_isspace cs)"
      using True by (rule sub_ws_space)
    show ?thesis
    proof (cases "dropWhile py_isspace cs")
      case Nil
      have "sub_ws (c # cs) = [32]" unfolding e Nil by simp
      then show ?thesis by simp
    next
      case (Cons d ds)
      have "dropWhile py_isspace cs \<noteq> []" unfolding Cons by simp
      then have "\<not> py_isspace (hd (dropWhile py_isspace cs))" by (rule hd_dropWhile)
      then have d: "\<not> py_isspace d" unfolding Cons by simp
      have ih: "single_spaced (sub_ws (d # ds))" using 2(1) [OF True] unfolding Cons .
      have e2: "sub_ws (c # cs) = 32 # d # sub_ws ds"
        unfolding e Cons sub_ws_other [OF d] ..
      have "single_spaced (d # sub_ws ds)" using ih unfolding sub_ws_other [OF d] .
      then show ?thesis unfolding e2 using d by simp
    qed
  next
    case False
    have ih: "single_spaced (sub_ws cs)" using 2(2) [OF False] .
    show ?thesis unfolding sub_ws_other [OF False] single_spaced_Cons_other [OF False] by (rule ih)
  qed
qed

lemma single_spaced_fixed: "single_spaced s \<Longrightarrow> sub_ws s = s"
proof (induction s rule: single_spaced.induct)
  case 1
  show ?case by simp
next
  case (2 c)
  then show ?case by simp
next
  case (3 c d cs)
  have ss: "single_spaced (d # cs)" using "3.prems" by simp
  have ih: "sub_ws (d # cs) = d # cs" by (rule "3.IH" [OF ss])
  show ?case
  proof (cases "py_isspace c")
    case True
    then have c: "c = 32" and d: "\<not> py_isspace d" using "3.prems" by simp_all
    have "dropWhile py_isspace (d # cs) = d # cs" using d by simp
    then have "sub_ws (c # d # cs) = 32 # sub_ws (d # cs)"
      unfolding sub_ws_space [OF True] by (rule arg_cong)
    then show ?thesis unfolding ih c .
  next
    case False
    show ?thesis unfolding sub_ws_other [OF False] ih ..
  qed
qed

lemma single_spaced_Cons: "single_spaced (c # cs) \<Longrightarrow> single_spaced cs"
  by (cases cs) simp_all

lemma single_spaced_suffix: "single_spaced (xs @ ys) \<Longrightarrow> single_spaced ys"
  by (induction xs) (auto dest: single_spaced_Cons)

lemma single_spaced_prefix: "single_spaced (xs @ ys) \<Longrightarrow> single_spaced xs"
proof (induction xs rule: single_spaced.induct)
  case 1
  show ?case by simp
next
  case (2 c)
  then show ?case by (cases ys) simp_all
next
  case (3 c d cs)
  then show ?case by simp
qed

lemma single_spaced_no_run:
  assumes s: "single_spaced s"
  shows "(\<forall>c \<in> set s. py_isspace c \<longrightarrow> c = 32) \<and>
     (\<forall>xs c d ys. s = xs @ c # d # ys \<longrightarrow> \<not> (py_isspace c \<and> py_isspace d))"
proof (intro conjI ballI allI impI)
  fix c assume c: "c \<in> set s" and sp: "py_isspace c"
  obtain xs ys where e: "s = xs @ c # ys" using c by (meson split_list)
  have "single_spaced (c # ys)" using s unfolding e by (rule single_spaced_suffix)
  then show "c = 32" using sp by (cases ys) simp_all
next
  fix xs c d ys assume e: "s = xs @ c # d # ys"
  have "single_spaced (c # d # ys)" using s unfolding e by (rule single_spaced_suffix)
  then show "\<not> (py_isspace c \<and> py_isspace d)" by simp
qed

subsection \<open>The cleaned text\<close>

lemma clean_text_single_spaced: "single_spaced (clean_text isalnum s)"
proof -
  obtain pre post where e: "sub_ws (py_strip s) = pre @ clean_text isalnum s @ post"
    unfolding clean_text_def strip_nonword_def using strip_both_infix by blast
  have "single_spaced (pre @ clean_text isalnum s @ post)"
    using sub_ws_single_spaced [of "py_strip s"] unfolding e .
  then have "single_spaced (clean_text isalnum s @ post)" by (rule single_spaced_suffix)
  then show ?thesis by (rule single_spaced_prefix)
qed

lemma clean_text_ends:
  assumes "clean_text isalnum s \<noteq> []"
  shows "is_word isalnum (hd (clean_text isalnum s)) \<and> is_word isalnum (last (clean_text isalnum s))"
  using assms strip_both_ends [of "\<lambda>c. \<not> is_word isalnum c" "sub_ws (py_strip s)"]
  unfolding clean_text_def strip_nonword_def by simp

lemma underscore_not_space: "\<not> py_isspace 95"
  by (simp add: py_isspace_def)

lemma space_not_word:
  assumes H: "\<forall>c. py_isspace c \<longrightarrow> \<not> isalnum c" and c: "py_isspace c"
  shows "\<not> is_word isalnum c"
proof -
  have "\<not> isalnum c" using H c by blast
  moreover have "c \<noteq> 95" using c underscore_not_space by blast
  ultimately show ?thesis by (simp add: is_word_def)
qed

lemma clean_text_fixed:
  assumes H: "\<forall>c. py_isspace c \<longrightarrow> \<not> isalnum c" and ne: "clean_text isalnum s \<noteq> []"
  shows "clean_text isalnum (clean_text isalnum s) = clean_text isalnum s"
proof -
  define t where "t = clean_text isalnum s"
  have t: "t \<noteq> []" using ne by (simp add: t_def)
  have w: "is_word isalnum (hd t)" "is_word isalnum (last t)"
    using clean_text_ends [OF ne] by (simp_all add: t_def)
  have n: "\<not> py_isspace (hd t)" "\<not> py_isspace (last t)"
    using w space_not_word [OF H] by blast+
  have 1: "py_strip t = t" unfolding py_strip_def using t n by (rule strip_both_fixed)
  have 2: "sub_ws t = t" unfolding t_def by (rule single_spaced_fixed [OF clean_text_single_spaced])
  have w': "\<not> \<not> is_word isalnum (hd t)" "\<not> \<not> is_word isalnum (last t)" using w by simp_all
  have 3: "strip_nonword isalnum t = t"
    unfolding strip_nonword_def using t w' by (rule strip_both_fixed)
  have "clean_text isalnum t = t" unfolding clean_text_def 1 2 3 ..
  then show ?thesis unfolding t_def .
qed

text \<open>
  C7. The text cleanup is idempotent: applying \<open>post_process_blocks\<close> to its own result
  gives that result again. The table of alphanumeric characters is a parameter; the only
  fact used about it is that no white-space character is alphanumeric.
\<close>

theorem post_process_blocks_idempotent:
  "(\<forall>c. py_isspace c \<longrightarrow> \<not> isalnum c) \<longrightarrow>
   post_process_blocks isalnum (post_process_blocks isalnum blocks) = post_process_blocks isalnum blocks"
proof
  assume H: "\<forall>c. py_isspace c \<longrightarrow> \<not> isalnum c"
  show "post_process_blocks isalnum (post_process_blocks isalnum blocks) = post_process_blocks isalnum blocks"
  proof (induction blocks)
    case Nil
    show ?case by simp
  next
    case (Cons b blocks)
    show ?case
    proof (cases "clean_text isalnum (btext b) \<noteq> [] \<and> has_ascii_letter (clean_text isalnum (btext b))")
      case True
      then have "clean_text isalnum (clean_text isalnum (btext b)) = clean_text isalnum (btext b)"
        using clean_text_fixed [OF H] by blast
      then show ?thesis using True Cons.IH by (simp add: Let_def)
    next
      case False
      then show ?thesis using Cons.IH by (auto simp: Let_def)
    qed
  qed
qed


lemma latin1_space_not_alnum: "\<forall>c. py_isspace c \<longrightarrow> \<not> latin1_isalnum c"
  unfolding py_isspace_def latin1_isalnum_def by presburger

lemma raw_blocks_cleaned:
  "post_process_blocks latin1_isalnum raw_blocks =
     [text_block ''1. Scope and Purpose'', text_block ''Summary'']"
  by (simp add: raw_blocks_def text_block_def ascii_def clean_text_def py_strip_def
        strip_nonword_def is_word_def has_ascii_letter_def py_isspace_def latin1_isalnum_def)

theorem post_process_blocks_idempotent_witness:
  "\<not> (\<exists>c. py_isspace c \<and> latin1_isalnum c) \<and>
   post_process_blocks latin1_isalnum raw_blocks =
     [text_block ''1. Scope and Purpose'', text_block ''Summary''] \<and>
   post_process_blocks latin1_isalnum (post_process_blocks latin1_isalnum raw_blocks) =
     post_process_blocks latin1_isalnum raw_blocks"
proof -
  have h: "\<not> (\<exists>c. py_isspace c \<and> latin1_isalnum c)"
    using latin1_space_not_alnum by blast
  show ?thesis
    by (intro conjI h raw_blocks_cleaned
          post_process_blocks_idempotent [of latin1_isalnum raw_blocks, THEN mp,
            OF latin1_space_not_alnum])
qed

lemma post_process_blocks_member:
  "b' \<in> set (post_process_blocks isalnum blocks) \<Longrightarrow>
   \<exists>b \<in> set blocks. b' = b\<lparr>btext := clean_text isalnum (btext b)\<rparr> \<and>
      clean_text isalnum (btext b) \<noteq> [] \<and> has_ascii_letter (clean_text isalnum (btext b))"
  by (induction blocks) (auto simp: Let_def split: if_splits)

text \<open>
  C8. Every block returned by the text cleanup has a text that is not empty, contains an
  ASCII letter, starts and ends with a word character, and has no white space other than
  single spaces: each white-space character is U+0020 and no two white-space characters
  are adjacent. So no block with an empty text reaches the feature engineer.
\<close>

theorem cleaned_text_well_formed:
  "\<forall>b \<in> set (post_process_blocks isalnum blocks).
     btext b \<noteq> [] \<and>
     (\<exists>c \<in> set (btext b). (65 \<le> c \<and> c \<le> 90) \<or> (97 \<le> c \<and> c \<le> 122)) \<and>
     is_word isalnum (hd (btext b)) \<and> is_word isalnum (last (btext b)) \<and>
     (\<forall>c \<in> set (btext b). py_isspace c \<longrightarrow> c = 32) \<and>
     (\<forall>xs c d ys. btext b = xs @ c # d # ys \<longrightarrow> \<not> (py_isspace c \<and> py_isspace d))"
proof
  fix b' assume "b' \<in> set (post_process_blocks isalnum blocks)"
  then obtain b where b: "b' = b\<lparr>btext := clean_text isalnum (btext b)\<rparr>"
    and ne: "clean_text isalnum (btext b) \<noteq> []"
    and al: "has_ascii_letter (clean_text isalnum (btext b))"
    using post_process_blocks_member by blast
  define t where "t = clean_text isalnum (btext b)"
  have bt: "btext b' = t" by (simp add: b t_def)
  have 1: "t \<noteq> []" using ne by (simp add: t_def)
  have 2: "\<exists>c \<in> set t. (65 \<le> c \<and> c \<le> 90) \<or> (97 \<le> c \<and> c \<le> 122)"
    using al by (simp add: t_def has_ascii_letter_def)
  have 3: "is_word isalnum (hd t) \<and> is_word isalnum (last t)"
    unfolding t_def by (rule clean_text_ends [OF ne])
  have "single_spaced t" unfolding t_def by (rule clean_text_single_spaced)
  then have 4: "(\<forall>c \<in> set t. py_isspace c \<longrightarrow> c = 32) \<and>
     (\<forall>xs c d ys. t = xs @ c # d # ys \<longrightarrow> \<not> (py_isspace c \<and> py_isspace d))"
    by (rule single_spaced_no_run)
  show "btext b' \<noteq> [] \<and>
     (\<exists>c \<in> set (btext b'). (65 \<le> c \<and> c \<le> 90) \<or> (97 \<le> c \<and> c \<le> 122)) \<and>
     is_word isalnum (hd (btext b')) \<and> is_word isalnum (last (btext b')) \<and>
     (\<forall>c \<in> set (btext b'). py_isspace c \<longrightarrow> c = 32) \<and>
     (\<forall>xs c d ys. btext b' = xs @ c # d # ys \<longrightarrow> \<not> (py_isspace c \<and> py_isspace d))"
    unfolding bt using 1 2 3 4 by (intro conjI) (erule conjunct1 conjunct2 | assumption)+
qed

theorem cleaned_text_well_formed_witness:
  "text_block ''1. Scope and Purpose'' \<in> set (post_process_blocks latin1_isalnum raw_blocks) \<and>
   btext (text_block ''1. Scope and Purpose'') \<noteq> [] \<and>
   (\<exists>c \<in> set (btext (text_block ''1. Scope and Purpose'')).
      (65 \<le> c \<and> c \<le> 90) \<or> (97 \<le> c \<and> c \<le> 122)) \<and>
   is_word latin1_isalnum (hd (btext (text_block ''1. Scope and Purpose''))) \<and>
   is_word latin1_isalnum (last (btext (text_block ''1. Scope and Purpose''))) \<and>
   \<not> (\<exists>c \<in> set (btext (text_block ''1. Scope and Purpose'')). py_isspace c \<and> c \<noteq> 32) \<and>
   \<not> (\<exists>xs c d ys. btext (text_block ''1. Scope and Purpose'') = xs @ c # d # ys \<and>
         py_isspace c \<and> py_isspace d)"
proof -
  define b where "b = text_block ''1. Scope and Purpose''"
  have m: "b \<in> set (post_process_blocks latin1_isalnum raw_blocks)"
    by (simp add: raw_blocks_cleaned b_def)
  note t = cleaned_text_well_formed [of latin1_isalnum raw_blocks, rule_format, OF m]
  have 1: "btext b \<noteq> []" using t by blast
  have 2: "\<exists>c \<in> set (btext b). (65 \<le> c \<and> c \<le> 90) \<or> (97 \<le> c \<and> c \<le> 122)"
    using t by blast
  have 3: "is_word latin1_isalnum (hd (btext b))" using t by blast
  have 4: "is_word latin1_isalnum (last (btext b))" using t by blast
  have 5: "\<not> (\<exists>c \<in> set (btext b). py_isspace c \<and> c \<noteq> 32)" using t by blast
  have 6: "\<not> (\<exists>xs c d ys. btext b = xs @ c # d # ys \<and> py_isspace c \<and> py_isspace d)"
    using t by blast
  show ?thesis using m 1 2 3 4 5 6 unfolding b_def by (intro conjI)
qed

section \<open>Block merger\<close>

lemma merge_loop_append:
  "merge_loop M prev cur rest out = out @ merge_loop M prev cur rest []"
proof (induction rest arbitrary: prev cur out)
  case Nil
  show ?case by simp
next
  case (Cons l rest)
  show ?case
  proof (cases "merges M prev l")
    case True
    then show ?thesis using Cons [of l _ out] by simp
  next
    case False
    let ?c = "\<lparr>ltext = ltext l, lbbox = lbbox l, lstyle = lstyle l\<rparr>"
    have "merge_loop M prev cur (l # rest) out = merge_loop M l ?c rest (out @ [cur])"
      using False by simp
    also have "\<dots> = (out @ [cur]) @ merge_loop M l ?c rest []" by (rule Cons)
    also have "\<dots> = out @ ([] @ [cur]) @ merge_loop M l ?c rest []" by simp
    also have "([] @ [cur]) @ merge_loop M l ?c rest [] = merge_loop M l ?c rest ([] @ [cur])"
      by (rule Cons [symmetric])
    also have "merge_loop M l ?c rest ([] @ [cur]) = merge_loop M prev cur (l # rest) []"
      using False by simp
    finally show ?thesis .
  qed
qed

lemma merge_lines_not_Nil: "lines \<noteq> [] \<Longrightarrow> merge_lines M lines \<noteq> []"
proof -
  assume "lines \<noteq> []"
  then obtain first rest where l: "lines = first # rest" by (cases lines) auto
  have "\<And>prev cur out. merge_loop M prev cur rest out \<noteq> []"
  proof (induction rest)
    case Nil
    show ?case by simp
  next
    case (Cons a rest)
    show ?case using Cons by simp
  qed
  then show ?thesis by (simp add: l merge_lines_def)
qed

lemma merge_lines_two:
  "merge_lines M [a, b] =
     (if merges M a b
      then [\<lparr>ltext = ltext a @ [32] @ ltext b, lbbox = include_rect M (lbbox a) (lbbox b),
             lstyle = lstyle a\<rparr>]
      else [\<lparr>ltext = ltext a, lbbox = lbbox a, lstyle = lstyle a\<rparr>,
            \<lparr>ltext = ltext b, lbbox = lbbox b, lstyle = lstyle b\<rparr>])"
  by (simp add: merge_lines_def)

lemma bullet_not_list_item: "\<not> is_list_item latin1_isdecimal (ltext bullet_line)"
  by (simp add: bullet_line_def ascii_def marker_space_def py_isspace_def latin1_isdecimal_def)

lemma dash_list_item: "is_list_item latin1_isdecimal (ltext dash_line)"
  by (simp add: dash_line_def ascii_def marker_space_def py_isspace_def latin1_isdecimal_def)

lemma dash_line_not_merged:
  "merge_lines default_merger [heading_line, dash_line] = [heading_line, dash_line]"
  using dash_list_item
  by (simp add: merge_lines_two merges_def default_merger_def)

lemma plain_line_merged:
  "merge_lines default_merger [heading_line, plain_line] =
     [\<lparr>ltext = ascii ''Scope and purpose'', lbbox = \<lparr>x0 = 50, y0 = 100, x1 = 320, y1 = 124\<rparr>,
       lstyle = body_style\<rparr>]"
  by (simp add: merge_lines_two merges_def default_merger_def heading_line_def plain_line_def
       ascii_def marker_space_def py_isspace_def latin1_isdecimal_def union_rect_def
       round_double_0)

text \<open>
  C1. A line merges into the open block iff its style equals the previous line's, the gap
  to the previous line is below the threshold, and it is no list item
  (\<open>merge_lines_two\<close> for two lines; the open block is always appended,
  \<open>merge_lines_not_Nil\<close>). A line that starts with a hyphen is a list item and starts a
  new block (\<open>dash_line_not_merged\<close>). A line that starts with the bullet U+2022 followed
  by a space is not recognised: the character class of the pattern holds U+00E2, U+20AC and
  U+00A2, the three characters that the UTF-8 bytes of the bullet give when read as
  Windows-1252. With the same style and a gap of 0 the bullet line is merged into the block
  of the line before it.
\<close>

theorem bullet_line_merged:
  "ltext bullet_line = 8226 # 32 # ascii ''first item'' \<and>
   lstyle bullet_line = lstyle heading_line \<and>
   y0 (lbbox bullet_line) - y1 (lbbox heading_line) = 0 \<and>
   merge_lines default_merger [heading_line, bullet_line] =
     [\<lparr>ltext = ascii ''Scope '' @ 8226 # ascii '' first item'',
       lbbox = \<lparr>x0 = 50, y0 = 100, x1 = 320, y1 = 124\<rparr>, lstyle = body_style\<rparr>]"
  by (simp add: merge_lines_two merges_def default_merger_def heading_line_def bullet_line_def
       ascii_def marker_space_def py_isspace_def latin1_isdecimal_def union_rect_def
       round_double_0)

theorem bullet_line_merged_witness:
  "length (merge_lines default_merger [heading_line, bullet_line]) = 1"
  using bullet_line_merged by simp

end
